theory Spec2Isabelle
  imports Complex_Main "HOL-Library.Word" "HOL-Library.Multiset"
begin

section \<open>Data model\<close>

text \<open>
  The repository holds two programs that evolve an image towards a target with a genetic
  algorithm: \<^verbatim>\<open>monalisa_triangles/main.go\<close> (a genome is a list of triangles that is
  rendered to a pixel buffer) and a second file (a genome is the pixel buffer itself).
  Go's \<^verbatim>\<open>uint8\<close>, \<^verbatim>\<open>uint64\<close> and \<^verbatim>\<open>int64\<close> are words; an \<^verbatim>\<open>int64\<close> is read with
  \<open>sint\<close> and compared with \<open><s\<close>. A slice is a list; every slice of the program is
  made with \<^verbatim>\<open>make\<close> or decoded from a file, so its capacity is its length.
\<close>

type_synonym uint8 = "8 word"
type_synonym uint64 = "64 word"
type_synonym int64 = "64 word"

text \<open>The run-time panics the modelled functions can raise.\<close>

datatype panic = IndexOutOfRange | SliceBoundsOutOfRange | InvalidIntnArgument

text \<open>\<^verbatim>\<open>image.Point\<close>, \<^verbatim>\<open>image.Rectangle\<close> and \<^verbatim>\<open>image.RGBA\<close> of the standard library.\<close>

record Point =
  X :: int
  Y :: int

record Rectangle =
  MinP :: Point
  MaxP :: Point

definition Dx :: "Rectangle \<Rightarrow> int" where
  "Dx r = X (MaxP r) - X (MinP r)"

definition Dy :: "Rectangle \<Rightarrow> int" where
  "Dy r = Y (MaxP r) - Y (MinP r)"

record RGBA =
  Pix :: "uint8 list"
  Stride :: int
  Rect :: Rectangle

text \<open>\<^verbatim>\<open>color.RGBA\<close> and the \<^verbatim>\<open>Triangle\<close> of \<^verbatim>\<open>main.go\<close>.\<close>

record color_RGBA =
  col_R :: uint8
  col_G :: uint8
  col_B :: uint8
  col_A :: uint8

record Triangle =
  P1 :: Point
  P2 :: Point
  P3 :: Point
  Color :: color_RGBA

text \<open>
  \<^verbatim>\<open>DNA\<close>: the raw-pixel program has the fields \<^verbatim>\<open>Gene\<close> and \<^verbatim>\<open>Fitness\<close>; the triangle
  program has \<^verbatim>\<open>Triangles\<close> as well. The functions the two programs share word for word
  (\<^verbatim>\<open>diff\<close>, \<^verbatim>\<open>calcFitness\<close>, \<^verbatim>\<open>getBest\<close>) are defined once, over both records.
  \<^verbatim>\<open>Gene\<close> is a pointer in Go; no function of either program writes through a pointer
  it shares (crossover allocates the child's buffer, mutation writes only to that child,
  the target is read only), so a genome is modelled by value.
\<close>

record DNA =
  Gene :: RGBA
  Fitness :: int64

record TDNA = DNA +
  Triangles :: "Triangle list"

section \<open>Randomness\<close>

text \<open>
  \<^verbatim>\<open>math/rand\<close> is a source of raw draws, threaded through every function that uses it.
  \<^verbatim>\<open>rand.Intn(n)\<close> panics for \<open>n \<le> 0\<close> and returns a value in \<open>[0, n)\<close> otherwise;
  \<^verbatim>\<open>rand.Float64()\<close> returns a value in \<open>[0, 1)\<close>; \<^verbatim>\<open>rand.Read\<close> fills a buffer and
  never fails.
\<close>

type_synonym rand = "nat \<Rightarrow> nat"

definition advance :: "nat \<Rightarrow> rand \<Rightarrow> rand" where
  "advance n g = (\<lambda>i. g (i + n))"

definition Intn :: "int \<Rightarrow> rand \<Rightarrow> panic + (int \<times> rand)" where
  "Intn n g = (if n \<le> 0 then Inl InvalidIntnArgument
               else Inr (int (g 0) mod n, advance 1 g))"

definition Float64 :: "rand \<Rightarrow> real \<times> rand" where
  "Float64 g = (real (g 0 mod 2 ^ 53) / 2 ^ 53, advance 1 g)"

definition Read :: "nat \<Rightarrow> rand \<Rightarrow> uint8 list \<times> rand" where
  "Read n g = (map (\<lambda>i. word_of_nat (g i)) [0..<n], advance n g)"

section \<open>The difference metric\<close>

text \<open>
  \<^verbatim>\<open>squareDifference\<close>: both bytes are widened to \<^verbatim>\<open>uint64\<close>, subtracted (the
  subtraction wraps when \<open>y\<close> exceeds \<open>x\<close>) and the result is multiplied by itself.
\<close>

definition squareDifference :: "uint8 \<Rightarrow> uint8 \<Rightarrow> uint64" where
  "squareDifference x y = (let d = (ucast x :: uint64) - ucast y in d * d)"

text \<open>
  The loop of \<^verbatim>\<open>diff\<close>: \<open>i\<close> runs over the indices of \<^verbatim>\<open>a.Pix\<close>; reading \<^verbatim>\<open>b.Pix[i]\<close>
  beyond the end of \<^verbatim>\<open>b.Pix\<close> panics. The accumulator is an \<^verbatim>\<open>int64\<close>.
\<close>

function diff_loop :: "uint8 list \<Rightarrow> uint8 list \<Rightarrow> nat \<Rightarrow> int64 \<Rightarrow> panic + int64" where
  "diff_loop a b i d =
     (if i < length a then
        (if i < length b then diff_loop a b (Suc i) (d + squareDifference (a ! i) (b ! i))
         else Inl IndexOutOfRange)
      else Inr d)"
  by pat_completeness auto
termination
  by (relation "measure (\<lambda>(a, b, i, d). length a - i)") auto

declare diff_loop.simps [simp del]

text \<open>
  \<^verbatim>\<open>int64(math.Sqrt(float64(d)))\<close>. For \<open>0 \<le> d < 2^53\<close> the conversion to \<^verbatim>\<open>float64\<close>
  is exact and the IEEE square root is correctly rounded, so the result is the integer
  square root, computed here digit by digit; the theorems use its value on small sums and
  otherwise only its bounds, \<open>0 \<le> r < 2^32\<close>, which hold for every \<open>d \<ge> 0\<close>. For
  \<open>d < 0\<close>, which only a wrapped accumulator gives (a buffer of \<open>2^47\<close> bytes or more),
  \<^verbatim>\<open>math.Sqrt\<close> returns NaN and the conversion of NaN is implementation-specific: it is
  the smallest \<^verbatim>\<open>int64\<close> on amd64, which is modelled.
\<close>

fun isqrt :: "nat \<Rightarrow> nat" where
  "isqrt n =
     (if n < 2 then n
      else (let r = 2 * isqrt (n div 4)
            in if (r + 1) * (r + 1) \<le> n then r + 1 else r))"

declare isqrt.simps [simp del]

definition sqrt_int64 :: "int64 \<Rightarrow> int64" where
  "sqrt_int64 d = (if sint d < 0 then - (2 ^ 63) else word_of_nat (isqrt (nat (sint d))))"

definition diff :: "RGBA \<Rightarrow> RGBA \<Rightarrow> panic + int64" where
  "diff a b =
     (case diff_loop (Pix a) (Pix b) 0 0 of
        Inl e \<Rightarrow> Inl e
      | Inr d \<Rightarrow> Inr (sqrt_int64 d))"

section \<open>Fitness\<close>

text \<open>
  \<^verbatim>\<open>calcFitness\<close>: the assignment of 1 under \<^verbatim>\<open>difference == 0\<close> is followed by the
  unconditional assignment of \<^verbatim>\<open>difference\<close>.
\<close>

definition calcFitness :: "'a DNA_scheme \<Rightarrow> RGBA \<Rightarrow> panic + 'a DNA_scheme" where
  "calcFitness d target =
     (case diff (Gene d) target of
        Inl e \<Rightarrow> Inl e
      | Inr difference \<Rightarrow>
          (let d1 = (if difference = 0 then d\<lparr>Fitness := 1\<rparr> else d)
           in Inr (d1\<lparr>Fitness := difference\<rparr>)))"

section \<open>The best genome\<close>

text \<open>
  \<^verbatim>\<open>getBest\<close>: \<open>best\<close> starts at 0 and \<open>index\<close> at 0; a genome replaces the best one
  only when its fitness is greater. \<^verbatim>\<open>population[index]\<close> panics on an empty slice.
\<close>

function getBest_loop :: "'a DNA_scheme list \<Rightarrow> nat \<Rightarrow> int64 \<Rightarrow> nat \<Rightarrow> nat" where
  "getBest_loop population i best index =
     (if i < length population then
        (if best <s Fitness (population ! i)
         then getBest_loop population (Suc i) (Fitness (population ! i)) i
         else getBest_loop population (Suc i) best index)
      else index)"
  by pat_completeness auto
termination
  by (relation "measure (\<lambda>(population, i, best, index). length population - i)") auto

declare getBest_loop.simps [simp del]

definition getBest :: "'a DNA_scheme list \<Rightarrow> panic + 'a DNA_scheme" where
  "getBest population =
     (let index = getBest_loop population 0 0 0
      in if index < length population then Inr (population ! index)
         else Inl IndexOutOfRange)"

section \<open>The reproduction pool\<close>

text \<open>
  \<^verbatim>\<open>sort.SliceStable\<close> with the comparison \<^verbatim>\<open>population[i].Fitness < population[j].Fitness\<close>
  on \<^verbatim>\<open>int64\<close>: the stable ascending sort of the slice in place. The result of a stable
  sort is determined by its input (\<open>sortSliceStable_unique\<close> below); the sort of the
  standard library is modelled by the stable insertion sort of the list library on the
  signed value of \<^verbatim>\<open>Fitness\<close>.
\<close>

definition sortSliceStable :: "'a DNA_scheme list \<Rightarrow> 'a DNA_scheme list" where
  "sortSliceStable population = sort_key (\<lambda>d. sint (Fitness d)) population"

text \<open>
  The inner loop of \<^verbatim>\<open>createPool\<close>, \<^verbatim>\<open>for n := int64(0); n < num; n++\<close>: it appends
  the genome while the \<^verbatim>\<open>int64\<close> counter is below \<open>num\<close>, so not at all for
  \<open>num \<le> 0\<close>.
\<close>

function createPool_inner :: "'d \<Rightarrow> int64 \<Rightarrow> int64 \<Rightarrow> 'd list \<Rightarrow> 'd list" where
  "createPool_inner x num n pool =
     (if n <s num then createPool_inner x num (n + 1) (pool @ [x]) else pool)"
  by pat_completeness auto
termination
proof (relation "measure (\<lambda>(x, num, n, pool). nat (sint num - sint n))")
  show "wf (measure (\<lambda>(x :: 'd, num :: int64, n :: int64, pool :: 'd list).
                       nat (sint num - sint n)))"
    by simp
next
  fix x :: 'd and num n :: int64 and pool :: "'d list"
  assume "n <s num"
  then have lt: "sint n < sint num" by (simp add: word_sless_alt)
  moreover have "sint num < 2 ^ 63" using sint_lt [of num] by simp
  moreover have "- (2 ^ 63) \<le> sint n" using sint_ge [of n] by simp
  ultimately have r: "- (2 ^ 63) \<le> sint n + 1" "sint n + 1 < 2 ^ 63" by linarith+
  have "sint (n + 1) = signed_take_bit 63 (sint n + 1)"
    by (simp add: sint_word_add)
  also have "\<dots> = sint n + 1"
    using r by (simp add: signed_take_bit_int_eq_self)
  finally have "sint (n + 1) = sint n + 1" .
  with lt show "((x, num, n + 1, pool @ [x]), (x, num, n, pool))
      \<in> measure (\<lambda>(x, num, n, pool). nat (sint num - sint n))"
    by simp
qed

declare createPool_inner.simps [simp del]

text \<open>
  The outer loop, \<^verbatim>\<open>for i := 0; i < len(top)-1; i++\<close>. The two programs differ only in the
  number of copies \<open>num\<close>, which is passed in as a function of the slice
  \<^verbatim>\<open>top\<close> and \<open>i\<close>. The slice is called \<open>tops\<close> here, \<open>top\<close> being a constant of
  the logic.
\<close>

function createPool_loop ::
  "('d list \<Rightarrow> nat \<Rightarrow> int64) \<Rightarrow> 'd list \<Rightarrow> nat \<Rightarrow> 'd list \<Rightarrow> 'd list" where
  "createPool_loop num tops i pool =
     (if i < length tops - 1
      then createPool_loop num tops (Suc i) (createPool_inner (tops ! i) (num tops i) 0 pool)
      else pool)"
  by pat_completeness auto
termination
  by (relation "measure (\<lambda>(num, tops, i, pool). length tops - 1 - i)") auto

declare createPool_loop.simps [simp del]

text \<open>
  \<^verbatim>\<open>createPool\<close> of \<^verbatim>\<open>main.go\<close> (triangles). The result is the pair of the caller's
  slice after the call, which the sort has reordered, and the pool or the panic.
  \<^verbatim>\<open>PoolSize\<close> is a configuration variable (20) that is never assigned, a natural
  number here. \<^verbatim>\<open>population[0 : PoolSize+1]\<close> panics when the slice is shorter.
\<close>

definition createPool_tri ::
  "nat \<Rightarrow> 'a DNA_scheme list \<Rightarrow> 'a DNA_scheme list \<times> (panic + 'a DNA_scheme list)" where
  "createPool_tri PoolSize population =
     (let population' = sortSliceStable population
      in if length population' < PoolSize + 1 then (population', Inl SliceBoundsOutOfRange)
         else (let tops = take (PoolSize + 1) population'
               in if Fitness (tops ! (length tops - 1)) - Fitness (tops ! 0) = 0
                  then (population', Inr population')
                  else (population',
                        Inr (createPool_loop
                               (\<lambda>tops i. Fitness (tops ! PoolSize) - Fitness (tops ! i))
                               tops 0 []))))"

text \<open>
  \<^verbatim>\<open>createPool\<close> of the raw-pixel program: no test for equal fitness, and the number of
  copies is multiplied by 10.
\<close>

definition createPool_raw ::
  "nat \<Rightarrow> 'a DNA_scheme list \<Rightarrow> 'a DNA_scheme list \<times> (panic + 'a DNA_scheme list)" where
  "createPool_raw PoolSize population =
     (let population' = sortSliceStable population
      in if length population' < PoolSize + 1 then (population', Inl SliceBoundsOutOfRange)
         else (let tops = take (PoolSize + 1) population'
               in (population',
                   Inr (createPool_loop
                          (\<lambda>tops i. (Fitness (tops ! PoolSize) - Fitness (tops ! i)) * 10)
                          tops 0 []))))"

section \<open>Crossover\<close>

text \<open>
  Sequencing of a step that may panic and returns the advanced random source.
\<close>

definition andThen ::
  "panic + ('a \<times> rand) \<Rightarrow> ('a \<Rightarrow> rand \<Rightarrow> panic + ('b \<times> rand)) \<Rightarrow> panic + ('b \<times> rand)" where
  "andThen r f = (case r of Inl e \<Rightarrow> Inl e | Inr (x, g) \<Rightarrow> f x g)"

text \<open>
  The loop of \<^verbatim>\<open>crossover\<close>, the same in both programs up to the unit that is copied
  (a triangle or a byte): unit \<open>i\<close> is read from the first parent when \<open>i > mid\<close> and
  from the second otherwise; reading the second parent out of range panics. The child's
  slice is made with the first parent's length and every index is assigned in ascending
  order, which is modelled by appending; a panic discards the slice.
\<close>

function crossover_loop ::
  "int \<Rightarrow> 'u list \<Rightarrow> 'u list \<Rightarrow> nat \<Rightarrow> 'u list \<Rightarrow> panic + 'u list" where
  "crossover_loop mid u1 u2 i child =
     (if i < length u1 then
        (if int i > mid then crossover_loop mid u1 u2 (Suc i) (child @ [u1 ! i])
         else if i < length u2 then crossover_loop mid u1 u2 (Suc i) (child @ [u2 ! i])
         else Inl IndexOutOfRange)
      else Inr child)"
  by pat_completeness auto
termination
  by (relation "measure (\<lambda>(mid, u1, u2, i, child). length u1 - i)") auto

declare crossover_loop.simps [simp del]

text \<open>\<^verbatim>\<open>crossover\<close> of the raw-pixel program; \<^verbatim>\<open>rand.Intn\<close> panics on an empty buffer.\<close>

definition crossover_raw :: "DNA \<Rightarrow> DNA \<Rightarrow> rand \<Rightarrow> panic + (DNA \<times> rand)" where
  "crossover_raw d1 d2 g =
     andThen (Intn (int (length (Pix (Gene d1)))) g) (\<lambda>mid g.
       case crossover_loop mid (Pix (Gene d1)) (Pix (Gene d2)) 0 [] of
         Inl e \<Rightarrow> Inl e
       | Inr pix \<Rightarrow>
           Inr (\<lparr>Gene = \<lparr>Pix = pix, Stride = Stride (Gene d1), Rect = Rect (Gene d1)\<rparr>,
                 Fitness = 0\<rparr>, g))"

section \<open>Rendering\<close>

text \<open>
  \<^verbatim>\<open>image.Rect\<close> orders its corners, \<^verbatim>\<open>image.NewRGBA\<close> allocates four zero bytes for
  each pixel of the rectangle.
\<close>

definition image_Rect :: "int \<Rightarrow> int \<Rightarrow> int \<Rightarrow> int \<Rightarrow> Rectangle" where
  "image_Rect x0 y0 x1 y1 =
     \<lparr>MinP = \<lparr>X = min x0 x1, Y = min y0 y1\<rparr>, MaxP = \<lparr>X = max x0 x1, Y = max y0 y1\<rparr>\<rparr>"

definition NewRGBA :: "Rectangle \<Rightarrow> RGBA" where
  "NewRGBA r = \<lparr>Pix = replicate (nat (4 * Dx r * Dy r)) 0, Stride = 4 * Dx r, Rect = r\<rparr>"

text \<open>
  \<^verbatim>\<open>draw\<close>: the triangles are filled in order onto a new image. Filling one closed path
  is the work of the library \<^verbatim>\<open>draw2d\<close>, which is not part of the repository: it is
  the parameter \<open>fillTriangle\<close>.
\<close>

definition draw :: "(Triangle \<Rightarrow> RGBA \<Rightarrow> RGBA) \<Rightarrow> int \<Rightarrow> int \<Rightarrow> Triangle list \<Rightarrow> RGBA" where
  "draw fillTriangle w h triangles = fold fillTriangle triangles (NewRGBA (image_Rect 0 0 w h))"

text \<open>\<^verbatim>\<open>crossover\<close> of \<^verbatim>\<open>main.go\<close>: the child's triangles, then a fresh rendering.\<close>

definition crossover_tri ::
  "(Triangle \<Rightarrow> RGBA \<Rightarrow> RGBA) \<Rightarrow> TDNA \<Rightarrow> TDNA \<Rightarrow> rand \<Rightarrow> panic + (TDNA \<times> rand)" where
  "crossover_tri fillTriangle d1 d2 g =
     andThen (Intn (int (length (Triangles d1))) g) (\<lambda>mid g.
       case crossover_loop mid (Triangles d1) (Triangles d2) 0 [] of
         Inl e \<Rightarrow> Inl e
       | Inr triangles \<Rightarrow>
           Inr (\<lparr>Gene = draw fillTriangle (Dx (Rect (Gene d1))) (Dy (Rect (Gene d1))) triangles,
                 Fitness = 0, Triangles = triangles\<rparr>, g))"

section \<open>Mutation\<close>

text \<open>
  \<^verbatim>\<open>MutationRate\<close> is a configuration variable, the parameter \<open>rate\<close>. In the raw-pixel
  program a byte is replaced by \<^verbatim>\<open>uint8(rand.Intn(255))\<close> when the draw is below it.
\<close>

function mutate_raw_loop ::
  "real \<Rightarrow> uint8 list \<Rightarrow> nat \<Rightarrow> rand \<Rightarrow> panic + (uint8 list \<times> rand)" where
  "mutate_raw_loop rate pix i g =
     (if i < length pix then
        (if fst (Float64 g) < rate then
           (case Intn 255 (snd (Float64 g)) of
              Inl e \<Rightarrow> Inl e
            | Inr (v, g') \<Rightarrow> mutate_raw_loop rate (pix[i := word_of_int v]) (Suc i) g')
         else mutate_raw_loop rate pix (Suc i) (snd (Float64 g)))
      else Inr (pix, g))"
  by pat_completeness auto
termination
  by (relation "measure (\<lambda>(rate, pix, i, g). length pix - i)") auto

declare mutate_raw_loop.simps [simp del]

definition mutate_raw :: "real \<Rightarrow> DNA \<Rightarrow> rand \<Rightarrow> panic + (DNA \<times> rand)" where
  "mutate_raw rate d g =
     andThen (mutate_raw_loop rate (Pix (Gene d)) 0 g) (\<lambda>pix g.
       Inr (d\<lparr>Gene := (Gene d)\<lparr>Pix := pix\<rparr>\<rparr>, g))"

text \<open>
  \<^verbatim>\<open>createTriangle\<close>: ten draws in the order of the source; the first two panic when
  the width or the height is not positive.
\<close>

definition createTriangle :: "int \<Rightarrow> int \<Rightarrow> rand \<Rightarrow> panic + (Triangle \<times> rand)" where
  "createTriangle w h g =
     andThen (Intn w g) (\<lambda>x1 g. andThen (Intn h g) (\<lambda>y1 g.
     andThen (Intn 30 g) (\<lambda>x2 g. andThen (Intn 30 g) (\<lambda>y2 g.
     andThen (Intn 30 g) (\<lambda>x3 g. andThen (Intn 30 g) (\<lambda>y3 g.
     andThen (Intn 255 g) (\<lambda>cr g. andThen (Intn 255 g) (\<lambda>cg g.
     andThen (Intn 255 g) (\<lambda>cb g. andThen (Intn 255 g) (\<lambda>ca g.
       Inr (\<lparr>P1 = \<lparr>X = x1, Y = y1\<rparr>,
             P2 = \<lparr>X = x1 + (x2 - 15), Y = y1 + (y2 - 15)\<rparr>,
             P3 = \<lparr>X = x1 + (x3 - 15), Y = y1 + (y3 - 15)\<rparr>,
             Color = \<lparr>col_R = word_of_int cr, col_G = word_of_int cg,
                      col_B = word_of_int cb, col_A = word_of_int ca\<rparr>\<rparr>, g)))))))))))"

text \<open>
  \<^verbatim>\<open>mutate\<close> of \<^verbatim>\<open>main.go\<close>: a triangle is replaced by a new one when the draw is below
  the rate; the image is rendered again at the end.
\<close>

function mutate_tri_loop ::
  "real \<Rightarrow> int \<Rightarrow> int \<Rightarrow> Triangle list \<Rightarrow> nat \<Rightarrow> rand \<Rightarrow> panic + (Triangle list \<times> rand)" where
  "mutate_tri_loop rate w h triangles i g =
     (if i < length triangles then
        (if fst (Float64 g) < rate then
           (case createTriangle w h (snd (Float64 g)) of
              Inl e \<Rightarrow> Inl e
            | Inr (t, g') \<Rightarrow> mutate_tri_loop rate w h (triangles[i := t]) (Suc i) g')
         else mutate_tri_loop rate w h triangles (Suc i) (snd (Float64 g)))
      else Inr (triangles, g))"
  by pat_completeness auto
termination
  by (relation "measure (\<lambda>(rate, w, h, triangles, i, g). length triangles - i)") auto

declare mutate_tri_loop.simps [simp del]

definition mutate_tri ::
  "(Triangle \<Rightarrow> RGBA \<Rightarrow> RGBA) \<Rightarrow> real \<Rightarrow> TDNA \<Rightarrow> rand \<Rightarrow> panic + (TDNA \<times> rand)" where
  "mutate_tri fillTriangle rate d g =
     andThen (mutate_tri_loop rate (Dx (Rect (Gene d))) (Dy (Rect (Gene d))) (Triangles d) 0 g)
       (\<lambda>triangles g.
          Inr (d\<lparr>Triangles := triangles,
                 Gene := draw fillTriangle (Dx (Rect (Gene d))) (Dy (Rect (Gene d))) triangles\<rparr>,
               g))"

section \<open>Natural selection\<close>

text \<open>
  The body of the loop of \<^verbatim>\<open>naturalSelection\<close>: two indices into the pool, crossover,
  mutation, fitness. \<^verbatim>\<open>rand.Intn(len(pool))\<close> panics on an empty pool. The two programs
  have the same text and call their own \<^verbatim>\<open>crossover\<close> and \<^verbatim>\<open>mutate\<close>, the parameters
  \<open>cross\<close> and \<open>mut\<close>.
\<close>

definition reproduce ::
  "('a DNA_scheme \<Rightarrow> 'a DNA_scheme \<Rightarrow> rand \<Rightarrow> panic + ('a DNA_scheme \<times> rand)) \<Rightarrow>
   ('a DNA_scheme \<Rightarrow> rand \<Rightarrow> panic + ('a DNA_scheme \<times> rand)) \<Rightarrow>
   'a DNA_scheme list \<Rightarrow> RGBA \<Rightarrow> rand \<Rightarrow> panic + ('a DNA_scheme \<times> rand)" where
  "reproduce cross mut pool target g =
     andThen (Intn (int (length pool)) g) (\<lambda>r1 g.
     andThen (Intn (int (length pool)) g) (\<lambda>r2 g.
     andThen (cross (pool ! nat r1) (pool ! nat r2) g) (\<lambda>child g.
     andThen (mut child g) (\<lambda>child g.
       case calcFitness child target of
         Inl e \<Rightarrow> Inl e
       | Inr child \<Rightarrow> Inr (child, g)))))"

text \<open>
  \<^verbatim>\<open>naturalSelection\<close> and \<^verbatim>\<open>createPopulation\<close> have the same loop: a slice of \<open>n\<close>
  genomes is made (\<open>n\<close> is \<^verbatim>\<open>len(population)\<close> or \<^verbatim>\<open>PopSize\<close>) and slot \<open>i\<close> is
  assigned the genome that the body returns, in ascending order, which is modelled by
  appending. A panic of the body ends the loop.
\<close>

function fill_slots ::
  "(rand \<Rightarrow> panic + ('d \<times> rand)) \<Rightarrow> nat \<Rightarrow> nat \<Rightarrow> 'd list \<Rightarrow> rand \<Rightarrow> panic + ('d list \<times> rand)" where
  "fill_slots body n i next g =
     (if i < n then
        (case body g of
           Inl e \<Rightarrow> Inl e
         | Inr (child, g') \<Rightarrow> fill_slots body n (Suc i) (next @ [child]) g')
      else Inr (next, g))"
  by pat_completeness auto
termination
  by (relation "measure (\<lambda>(body, n, i, next, g). n - i)") auto

declare fill_slots.simps [simp del]

definition naturalSelection_raw ::
  "real \<Rightarrow> DNA list \<Rightarrow> DNA list \<Rightarrow> RGBA \<Rightarrow> rand \<Rightarrow> panic + (DNA list \<times> rand)" where
  "naturalSelection_raw rate pool population target g =
     fill_slots (reproduce crossover_raw (mutate_raw rate) pool target)
       (length population) 0 [] g"

definition naturalSelection_tri ::
  "(Triangle \<Rightarrow> RGBA \<Rightarrow> RGBA) \<Rightarrow> real \<Rightarrow> TDNA list \<Rightarrow> TDNA list \<Rightarrow> RGBA \<Rightarrow> rand \<Rightarrow>
   panic + (TDNA list \<times> rand)" where
  "naturalSelection_tri fillTriangle rate pool population target g =
     fill_slots
       (reproduce (crossover_tri fillTriangle) (mutate_tri fillTriangle rate) pool target)
       (length population) 0 [] g"

section \<open>The initial population\<close>

text \<open>
  \<^verbatim>\<open>createDNA\<close> of the raw-pixel program: \<^verbatim>\<open>createRandomImageFrom\<close> fills a buffer of the
  target's length and takes the target's stride and rectangle.
\<close>

definition createRandomImageFrom :: "RGBA \<Rightarrow> rand \<Rightarrow> RGBA \<times> rand" where
  "createRandomImageFrom img g =
     (\<lparr>Pix = fst (Read (length (Pix img)) g), Stride = Stride img, Rect = Rect img\<rparr>,
      snd (Read (length (Pix img)) g))"

definition createDNA_raw :: "RGBA \<Rightarrow> rand \<Rightarrow> panic + (DNA \<times> rand)" where
  "createDNA_raw target g =
     (case calcFitness \<lparr>Gene = fst (createRandomImageFrom target g), Fitness = 0\<rparr> target of
        Inl e \<Rightarrow> Inl e
      | Inr dna \<Rightarrow> Inr (dna, snd (createRandomImageFrom target g)))"

text \<open>
  \<^verbatim>\<open>createDNA\<close> of \<^verbatim>\<open>main.go\<close>: \<^verbatim>\<open>NumTriangles\<close> random triangles, rendered at the
  target's width and height.
\<close>

function createDNA_loop ::
  "nat \<Rightarrow> int \<Rightarrow> int \<Rightarrow> nat \<Rightarrow> Triangle list \<Rightarrow> rand \<Rightarrow> panic + (Triangle list \<times> rand)" where
  "createDNA_loop NumTriangles w h i triangles g =
     (if i < NumTriangles then
        (case createTriangle w h g of
           Inl e \<Rightarrow> Inl e
         | Inr (t, g') \<Rightarrow> createDNA_loop NumTriangles w h (Suc i) (triangles @ [t]) g')
      else Inr (triangles, g))"
  by pat_completeness auto
termination
  by (relation "measure (\<lambda>(NumTriangles, w, h, i, triangles, g). NumTriangles - i)") auto

declare createDNA_loop.simps [simp del]

definition createDNA_tri ::
  "(Triangle \<Rightarrow> RGBA \<Rightarrow> RGBA) \<Rightarrow> nat \<Rightarrow> RGBA \<Rightarrow> rand \<Rightarrow> panic + (TDNA \<times> rand)" where
  "createDNA_tri fillTriangle NumTriangles target g =
     andThen (createDNA_loop NumTriangles (Dx (Rect target)) (Dy (Rect target)) 0 [] g)
       (\<lambda>triangles g.
          case calcFitness
                 \<lparr>Gene = draw fillTriangle (Dx (Rect target)) (Dy (Rect target)) triangles,
                  Fitness = 0, Triangles = triangles\<rparr> target of
            Inl e \<Rightarrow> Inl e
          | Inr dna \<Rightarrow> Inr (dna, g))"

text \<open>
  \<^verbatim>\<open>createPopulation\<close>: \<^verbatim>\<open>PopSize\<close> genomes, one call of \<^verbatim>\<open>createDNA\<close> for each slot.
\<close>

definition createPopulation_raw :: "nat \<Rightarrow> RGBA \<Rightarrow> rand \<Rightarrow> panic + (DNA list \<times> rand)" where
  "createPopulation_raw PopSize target g =
     fill_slots (createDNA_raw target) PopSize 0 [] g"

definition createPopulation_tri ::
  "(Triangle \<Rightarrow> RGBA \<Rightarrow> RGBA) \<Rightarrow> nat \<Rightarrow> nat \<Rightarrow> RGBA \<Rightarrow> rand \<Rightarrow> panic + (TDNA list \<times> rand)" where
  "createPopulation_tri fillTriangle NumTriangles PopSize target g =
     fill_slots (createDNA_tri fillTriangle NumTriangles target) PopSize 0 [] g"

section \<open>Sample values\<close>

text \<open>
  A triangle for each number and a renderer that floods the image with the red channel of
  the triangle's colour; they instantiate the theorems below at concrete genomes.
\<close>

abbreviation sample_triangle :: "int \<Rightarrow> Triangle" where
  "sample_triangle k \<equiv>
     \<lparr>P1 = \<lparr>X = k, Y = 0\<rparr>, P2 = \<lparr>X = k + 1, Y = 0\<rparr>, P3 = \<lparr>X = k, Y = 1\<rparr>,
      Color = \<lparr>col_R = word_of_int k, col_G = 0, col_B = 0, col_A = 255\<rparr>\<rparr>"

abbreviation flood :: "Triangle \<Rightarrow> RGBA \<Rightarrow> RGBA" where
  "flood t img \<equiv> img\<lparr>Pix := map (\<lambda>b. col_R (Color t)) (Pix img)\<rparr>"

section \<open>Properties of the difference metric\<close>

lemma byte_gap_sq: "(uint (x::uint8) - uint (y::uint8))\<^sup>2 \<le> 65025"
proof -
  have "uint x < 256" "uint y < 256" using uint_lt2p [of x] uint_lt2p [of y] by simp_all
  moreover have "0 \<le> uint x" "0 \<le> uint y" by simp_all
  ultimately have "\<bar>uint x - uint y\<bar> \<le> 255" by linarith
  then have "(uint x - uint y)\<^sup>2 \<le> 255\<^sup>2"
    by (metis abs_le_square_iff abs_numeral)
  then show ?thesis by simp
qed

lemma squareDifference_word: "squareDifference x y = word_of_int ((uint x - uint y)\<^sup>2)"
  by (simp add: squareDifference_def Let_def power2_eq_square)

lemma uint_squareDifference: "uint (squareDifference x y) = (uint x - uint y)\<^sup>2"
proof -
  let ?k = "(uint x - uint y)\<^sup>2"
  have "0 \<le> ?k" by simp
  moreover have "?k < 2 ^ 64" using byte_gap_sq [of x y] by simp
  ultimately have "?k mod 2 ^ 64 = ?k" by (rule mod_pos_pos_trivial)
  moreover have "uint (word_of_int ?k :: uint64) = ?k mod 2 ^ 64"
    by (simp only: uint_word_of_int len_bit0 len_num1 mult_1_right) simp
  ultimately show ?thesis by (simp only: squareDifference_word)
qed

text \<open>
  The subtraction inside does wrap when the second byte is the greater one; the product
  of the wrapped difference with itself is the square all the same.
\<close>

lemma squareDifference_wraps_inside:
  "(ucast (3 :: uint8) :: uint64) - ucast (5 :: uint8) = 18446744073709551614
   \<and> squareDifference 3 5 = 4"
  by (simp add: squareDifference_def)

text \<open>The loop of \<^verbatim>\<open>diff\<close> in closed form: when it panics, and what it sums otherwise.\<close>

lemma diff_loop_closed:
  "diff_loop a b i d =
     (if i < length a \<and> length b < length a then Inl IndexOutOfRange
      else Inr (d + (\<Sum>j = i..<length a. squareDifference (a ! j) (b ! j))))"
proof (induction a b i d rule: diff_loop.induct)
  case (1 a b i d)
  show ?case
  proof (cases "i < length a")
    case False
    then show ?thesis by (subst diff_loop.simps) simp
  next
    case True
    show ?thesis
    proof (cases "i < length b")
      case False
      with True show ?thesis by (subst diff_loop.simps) simp
    next
      case inb: True
      from True have s: "(\<Sum>j = i..<length a. squareDifference (a ! j) (b ! j))
          = squareDifference (a ! i) (b ! i)
            + (\<Sum>j = Suc i..<length a. squareDifference (a ! j) (b ! j))"
        by (simp add: sum.atLeast_Suc_lessThan)
      from True inb 1 show ?thesis
        by (subst diff_loop.simps) (auto simp: s add.assoc)
    qed
  qed
qed

lemma sint_word_of_int_small:
  "0 \<le> k \<Longrightarrow> k < 2 ^ 63 \<Longrightarrow> sint (word_of_int k :: int64) = k"
  by (simp add: sint_sbintrunc' signed_take_bit_int_eq_self)

lemma sq_sum_word:
  "(\<Sum>j = i..<n. squareDifference (a ! j) (b ! j))
     = (word_of_int (\<Sum>j = i..<n. (uint (a ! j) - uint (b ! j))\<^sup>2) :: int64)"
  by (simp add: squareDifference_word)

lemma sq_sum_bound:
  "(\<Sum>j = i..<n. (uint ((a::uint8 list) ! j) - uint ((b::uint8 list) ! j))\<^sup>2)
     \<le> 65025 * int (n - i)"
proof -
  have "(\<Sum>j = i..<n. (uint (a ! j) - uint (b ! j))\<^sup>2) \<le> (\<Sum>j = i..<n. 65025)"
    by (rule sum_mono) (rule byte_gap_sq)
  then show ?thesis by simp
qed

lemma diff_loop_exact:
  assumes "length a \<le> length b" and "length a < 2 ^ 47"
  shows "\<exists>d. diff_loop a b 0 0 = Inr d
           \<and> sint d = (\<Sum>j = 0..<length a. (uint (a ! j) - uint (b ! j))\<^sup>2)"
proof -
  let ?s = "\<Sum>j = 0..<length a. (uint (a ! j) - uint (b ! j))\<^sup>2"
  have "int (length a) < 2 ^ 47"
    using assms(2) by (metis of_nat_less_iff of_nat_numeral of_nat_power)
  then have "65025 * int (length a - 0) < 2 ^ 63" by simp
  with sq_sum_bound [where i = 0 and n = "length a" and a = a and b = b]
  have "?s < 2 ^ 63" by linarith
  moreover have "0 \<le> ?s" by (rule sum_nonneg) simp
  ultimately have "sint (word_of_int ?s :: int64) = ?s"
    by (rule sint_word_of_int_small [rotated])
  moreover have "diff_loop a b 0 0 = Inr (word_of_int ?s)"
    using assms(1) by (simp add: diff_loop_closed sq_sum_word)
  ultimately show ?thesis by simp
qed

text \<open>
  C3. \<^verbatim>\<open>squareDifference(x, y)\<close> is the exact square of the difference of the two bytes,
  also when \<open>y\<close> exceeds \<open>x\<close> and the \<^verbatim>\<open>uint64\<close> subtraction wraps. Consequently the sum
  that \<^verbatim>\<open>diff\<close> accumulates over two buffers (the second at least as long as the first,
  the first shorter than \<open>2^47\<close> bytes, so that the \<^verbatim>\<open>int64\<close> accumulator cannot wrap) is
  the exact sum of the squared differences of the bytes, and \<^verbatim>\<open>diff\<close> returns its root.
\<close>

theorem squareDifference_exact:
  "uint (squareDifference x y) = (uint x - uint y)\<^sup>2
   \<and> (length (Pix a) \<le> length (Pix b) \<and> length (Pix a) < 2 ^ 47 \<longrightarrow>
        (\<exists>d. diff_loop (Pix a) (Pix b) 0 0 = Inr d
           \<and> sint d = (\<Sum>j = 0..<length (Pix a). (uint (Pix a ! j) - uint (Pix b ! j))\<^sup>2)
           \<and> diff a b = Inr (sqrt_int64 d)))"
proof -
  have "\<exists>d. diff_loop (Pix a) (Pix b) 0 0 = Inr d
           \<and> sint d = (\<Sum>j = 0..<length (Pix a). (uint (Pix a ! j) - uint (Pix b ! j))\<^sup>2)
           \<and> diff a b = Inr (sqrt_int64 d)"
    if "length (Pix a) \<le> length (Pix b)" and "length (Pix a) < 2 ^ 47"
    using diff_loop_exact [OF that] by (auto simp: diff_def)
  with uint_squareDifference [of x y] show ?thesis by blast
qed

theorem squareDifference_exact_witness:
  "uint (squareDifference 3 5) = 4
   \<and> length [3, 250, 0, 7 :: uint8] \<le> length [5, 1, 0, 7 :: uint8]
   \<and> length [3, 250, 0, 7 :: uint8] < 2 ^ 47
   \<and> diff_loop [3, 250, 0, 7] [5, 1, 0, 7] 0 0 = Inr 62005
   \<and> sint (62005 :: int64) = (3 - 5)\<^sup>2 + (250 - 1)\<^sup>2 + (0 - 0)\<^sup>2 + (7 - 7)\<^sup>2
   \<and> diff \<lparr>Pix = [3, 250, 0, 7], Stride = 4, Rect = image_Rect 0 0 1 1\<rparr>
           \<lparr>Pix = [5, 1, 0, 7], Stride = 4, Rect = image_Rect 0 0 1 1\<rparr> = Inr (sqrt_int64 62005)"
  using squareDifference_exact
    [of 3 5 "\<lparr>Pix = [3, 250, 0, 7], Stride = 4, Rect = image_Rect 0 0 1 1\<rparr>"
        "\<lparr>Pix = [5, 1, 0, 7], Stride = 4, Rect = image_Rect 0 0 1 1\<rparr>"]
  by (simp add: diff_loop.simps squareDifference_def)

text \<open>
  Mismatched buffers: a shorter second buffer makes the loop read out of range; a longer
  one is read only up to the length of the first.
\<close>

lemma diff_shorter_panics:
  "length (Pix b) < length (Pix a) \<Longrightarrow> diff a b = Inl IndexOutOfRange"
  by (auto simp: diff_def diff_loop_closed)

lemma diff_longer_truncates:
  assumes "length (Pix a) \<le> length (Pix b)"
  shows "diff a b = diff a (b\<lparr>Pix := take (length (Pix a)) (Pix b)\<rparr>)"
    and "\<exists>d. diff a b = Inr d"
  using assms by (simp_all add: diff_def diff_loop_closed)

text \<open>
  C8, as amended. When the second buffer is shorter than the first, \<^verbatim>\<open>diff\<close> fails loudly
  (the index-out-of-range panic). When the second buffer is longer, \<^verbatim>\<open>diff\<close> does not
  fail: it returns the metric of the first buffer against the leading bytes of the second
  and ignores the rest.
\<close>

theorem diff_length_mismatch:
  "(length (Pix b) < length (Pix a) \<longrightarrow> diff a b = Inl IndexOutOfRange)
   \<and> (length (Pix a) < length (Pix b) \<longrightarrow>
        (\<exists>d. diff a b = Inr d)
        \<and> diff a b = diff a (b\<lparr>Pix := take (length (Pix a)) (Pix b)\<rparr>))"
  using diff_shorter_panics [of b a] diff_longer_truncates [of a b] by auto

theorem diff_length_mismatch_witness:
  "length (Pix \<lparr>Pix = [0, 0, 0, 0], Stride = 4, Rect = image_Rect 0 0 1 1\<rparr>)
     < length (Pix \<lparr>Pix = [0, 0, 0, 0, 255, 255, 255, 255], Stride = 8,
                     Rect = image_Rect 0 0 2 1\<rparr>)
   \<and> diff \<lparr>Pix = [0, 0, 0, 0, 255, 255, 255, 255], Stride = 8, Rect = image_Rect 0 0 2 1\<rparr>
          \<lparr>Pix = [0, 0, 0, 0], Stride = 4, Rect = image_Rect 0 0 1 1\<rparr>
       = Inl IndexOutOfRange
   \<and> diff \<lparr>Pix = [0, 0, 0, 0], Stride = 4, Rect = image_Rect 0 0 1 1\<rparr>
          \<lparr>Pix = [0, 0, 0, 0, 255, 255, 255, 255], Stride = 8, Rect = image_Rect 0 0 2 1\<rparr>
       = diff \<lparr>Pix = [0, 0, 0, 0], Stride = 4, Rect = image_Rect 0 0 1 1\<rparr>
              \<lparr>Pix = [0, 0, 0, 0], Stride = 8, Rect = image_Rect 0 0 2 1\<rparr>"
  using diff_length_mismatch
      [of "\<lparr>Pix = [0, 0, 0, 0], Stride = 4, Rect = image_Rect 0 0 1 1\<rparr>"
          "\<lparr>Pix = [0, 0, 0, 0, 255, 255, 255, 255], Stride = 8, Rect = image_Rect 0 0 2 1\<rparr>"]
    diff_length_mismatch
      [of "\<lparr>Pix = [0, 0, 0, 0, 255, 255, 255, 255], Stride = 8, Rect = image_Rect 0 0 2 1\<rparr>"
          "\<lparr>Pix = [0, 0, 0, 0], Stride = 4, Rect = image_Rect 0 0 1 1\<rparr>"]
  by simp

text \<open>
  The claim as stated fails for a longer second buffer: a black pixel against a black and
  a white pixel has distance 0, and nothing is reported.
\<close>

theorem diff_length_mismatch_counterexample:
  "length (Pix \<lparr>Pix = [0, 0, 0, 0], Stride = 4, Rect = image_Rect 0 0 1 1\<rparr>)
     \<noteq> length (Pix \<lparr>Pix = [0, 0, 0, 0, 255, 255, 255, 255], Stride = 8,
                       Rect = image_Rect 0 0 2 1\<rparr>)
   \<and> diff \<lparr>Pix = [0, 0, 0, 0], Stride = 4, Rect = image_Rect 0 0 1 1\<rparr>
          \<lparr>Pix = [0, 0, 0, 0, 255, 255, 255, 255], Stride = 8, Rect = image_Rect 0 0 2 1\<rparr>
       = Inr 0"
  by (simp add: diff_def diff_loop.simps squareDifference_def sqrt_int64_def isqrt.simps)

section \<open>Properties of the fitness\<close>

lemma calcFitness_stores_difference:
  "diff (Gene d) target = Inr difference \<Longrightarrow>
     calcFitness d target = Inr (d\<lparr>Fitness := difference\<rparr>)"
  by (simp add: calcFitness_def Let_def)

lemma calcFitness_panics:
  "diff (Gene d) target = Inl e \<Longrightarrow> calcFitness d target = Inl e"
  by (simp add: calcFitness_def)

text \<open>
  C1. The claim asks for fitness 1 at distance 0. \<^verbatim>\<open>calcFitness\<close> assigns 1 and then
  overwrites it with the distance, so a genome identical to the target is stored with
  fitness 0: here a one-pixel genome equal to its target.
\<close>

theorem calcFitness_identical_stores_zero:
  "diff \<lparr>Pix = [10, 20, 30, 255], Stride = 4, Rect = image_Rect 0 0 1 1\<rparr>
        \<lparr>Pix = [10, 20, 30, 255], Stride = 4, Rect = image_Rect 0 0 1 1\<rparr> = Inr 0
   \<and> calcFitness
         \<lparr>Gene = \<lparr>Pix = [10, 20, 30, 255], Stride = 4, Rect = image_Rect 0 0 1 1\<rparr>,
          Fitness = 0\<rparr>
         \<lparr>Pix = [10, 20, 30, 255], Stride = 4, Rect = image_Rect 0 0 1 1\<rparr>
       = Inr \<lparr>Gene = \<lparr>Pix = [10, 20, 30, 255], Stride = 4, Rect = image_Rect 0 0 1 1\<rparr>,
              Fitness = 0\<rparr>"
  by (simp add: calcFitness_def diff_def diff_loop.simps squareDifference_def
        sqrt_int64_def isqrt.simps)

section \<open>Properties of the best genome\<close>

text \<open>
  The invariant of the loop of \<^verbatim>\<open>getBest\<close>: either nothing has exceeded the baseline 0
  and the index is still 0, or the index is the first position of the greatest fitness
  seen so far, which is positive.
\<close>

lemma getBest_loop_post:
  assumes "i \<le> length population"
    and "(best = 0 \<and> index = 0 \<and> (\<forall>k<i. sint (Fitness (population ! k)) \<le> 0))
         \<or> (index < i \<and> Fitness (population ! index) = best \<and> 0 < sint best
            \<and> (\<forall>k<i. sint (Fitness (population ! k)) \<le> sint best)
            \<and> (\<forall>k<index. sint (Fitness (population ! k)) < sint best))"
  shows "(getBest_loop population i best index = 0
            \<and> (\<forall>k<length population. sint (Fitness (population ! k)) \<le> 0))
         \<or> (getBest_loop population i best index < length population
            \<and> 0 < sint (Fitness (population ! getBest_loop population i best index))
            \<and> (\<forall>k<length population. sint (Fitness (population ! k))
                   \<le> sint (Fitness (population ! getBest_loop population i best index)))
            \<and> (\<forall>k<getBest_loop population i best index. sint (Fitness (population ! k))
                   < sint (Fitness (population ! getBest_loop population i best index))))"
  using assms
proof (induction population i best index rule: getBest_loop.induct)
  case (1 population i best index)
  show ?case
  proof (cases "i < length population")
    case False
    then have eq: "getBest_loop population i best index = index"
      by (subst getBest_loop.simps) simp
    from False "1.prems" have "i = length population" by simp
    with "1.prems"(2) show ?thesis unfolding eq by auto
  next
    case True
    have nonneg: "0 \<le> sint best" using "1.prems"(2) by auto
    have below: "\<forall>k<i. sint (Fitness (population ! k)) \<le> sint best"
      using "1.prems"(2) by auto
    show ?thesis
    proof (cases "best <s Fitness (population ! i)")
      case gt: True
      then have lt: "sint best < sint (Fitness (population ! i))"
        by (simp add: word_sless_alt)
      from True gt have eq: "getBest_loop population i best index
          = getBest_loop population (Suc i) (Fitness (population ! i)) i"
        by (subst getBest_loop.simps) simp
      show ?thesis unfolding eq
      proof (rule "1.IH"(1) [OF True gt])
        show "Suc i \<le> length population" using True by simp
        have "\<forall>k<Suc i. sint (Fitness (population ! k)) \<le> sint (Fitness (population ! i))"
          using below lt by (auto simp: less_Suc_eq)
        moreover have "\<forall>k<i. sint (Fitness (population ! k)) < sint (Fitness (population ! i))"
          using below lt by fastforce
        moreover have "0 < sint (Fitness (population ! i))" using nonneg lt by linarith
        ultimately show "(Fitness (population ! i) = 0 \<and> i = 0
              \<and> (\<forall>k<Suc i. sint (Fitness (population ! k)) \<le> 0))
           \<or> (i < Suc i \<and> Fitness (population ! i) = Fitness (population ! i)
              \<and> 0 < sint (Fitness (population ! i))
              \<and> (\<forall>k<Suc i. sint (Fitness (population ! k)) \<le> sint (Fitness (population ! i)))
              \<and> (\<forall>k<i. sint (Fitness (population ! k)) < sint (Fitness (population ! i))))"
          by simp
      qed
    next
      case ngt: False
      then have le: "sint (Fitness (population ! i)) \<le> sint best"
        by (simp add: word_sless_alt)
      from True ngt have eq: "getBest_loop population i best index
          = getBest_loop population (Suc i) best index"
        by (subst getBest_loop.simps) simp
      show ?thesis unfolding eq
      proof (rule "1.IH"(2) [OF True ngt])
        show "Suc i \<le> length population" using True by simp
        show "(best = 0 \<and> index = 0 \<and> (\<forall>k<Suc i. sint (Fitness (population ! k)) \<le> 0))
           \<or> (index < Suc i \<and> Fitness (population ! index) = best \<and> 0 < sint best
              \<and> (\<forall>k<Suc i. sint (Fitness (population ! k)) \<le> sint best)
              \<and> (\<forall>k<index. sint (Fitness (population ! k)) < sint best))"
          using "1.prems"(2) le by (auto simp: less_Suc_eq)
      qed
    qed
  qed
qed

lemma getBest_loop_best_of:
  "(getBest_loop population 0 0 0 = 0
            \<and> (\<forall>k<length population. sint (Fitness (population ! k)) \<le> 0))
         \<or> (getBest_loop population 0 0 0 < length population
            \<and> 0 < sint (Fitness (population ! getBest_loop population 0 0 0))
            \<and> (\<forall>k<length population. sint (Fitness (population ! k))
                   \<le> sint (Fitness (population ! getBest_loop population 0 0 0)))
            \<and> (\<forall>k<getBest_loop population 0 0 0. sint (Fitness (population ! k))
                   < sint (Fitness (population ! getBest_loop population 0 0 0))))"
  by (rule getBest_loop_post) simp_all

text \<open>
  C4. For a non-empty population (whose fitness values are non-negative, as every value
  that \<^verbatim>\<open>calcFitness\<close> stores is), \<^verbatim>\<open>getBest\<close> returns the genome at the first index
  that has the maximum fitness: no genome has a greater fitness, and every genome before
  it has a smaller one.
\<close>

theorem getBest_maximum:
  assumes "population \<noteq> []"
    and "\<forall>d\<in>set population. 0 \<le> sint (Fitness d)"
  shows "\<exists>r<length population. getBest population = Inr (population ! r)
           \<and> (\<forall>k<length population.
                 sint (Fitness (population ! k)) \<le> sint (Fitness (population ! r)))
           \<and> (\<forall>k<r. sint (Fitness (population ! k)) < sint (Fitness (population ! r)))"
proof -
  let ?r = "getBest_loop population 0 0 0"
  let ?f = "\<lambda>k. sint (Fitness (population ! k))"
  have n: "0 < length population" using assms(1) by simp
  have nn: "\<forall>k<length population. 0 \<le> ?f k" using assms(2) by simp
  from getBest_loop_best_of [of population] consider
      (flat) "?r = 0" "\<forall>k<length population. ?f k \<le> 0"
    | (peak) "?r < length population" "\<forall>k<length population. ?f k \<le> ?f ?r"
        "\<forall>k<?r. ?f k < ?f ?r"
    by (elim disjE conjE) blast+
  then have "?r < length population \<and> (\<forall>k<length population. ?f k \<le> ?f ?r)
      \<and> (\<forall>k<?r. ?f k < ?f ?r)"
  proof cases
    case flat
    from flat(2) nn have "\<forall>k<length population. ?f k = 0" by (simp add: order.antisym)
    with n flat(1) show ?thesis by simp
  next
    case peak
    then show ?thesis by simp
  qed
  moreover from this have "getBest population = Inr (population ! ?r)"
    by (simp add: getBest_def)
  ultimately show ?thesis by blast
qed

theorem getBest_maximum_witness:
  "[\<lparr>Gene = NewRGBA (image_Rect 0 0 1 1), Fitness = 3\<rparr>,
    \<lparr>Gene = NewRGBA (image_Rect 0 0 1 1), Fitness = 9\<rparr>,
    \<lparr>Gene = NewRGBA (image_Rect 0 0 2 1), Fitness = 9\<rparr>] \<noteq> []
   \<and> list_all (\<lambda>d. 0 \<le> sint (Fitness d))
        [\<lparr>Gene = NewRGBA (image_Rect 0 0 1 1), Fitness = 3\<rparr>,
                 \<lparr>Gene = NewRGBA (image_Rect 0 0 1 1), Fitness = 9\<rparr>,
                 \<lparr>Gene = NewRGBA (image_Rect 0 0 2 1), Fitness = 9\<rparr>]
   \<and> getBest [\<lparr>Gene = NewRGBA (image_Rect 0 0 1 1), Fitness = 3\<rparr>,
               \<lparr>Gene = NewRGBA (image_Rect 0 0 1 1), Fitness = 9\<rparr>,
               \<lparr>Gene = NewRGBA (image_Rect 0 0 2 1), Fitness = 9\<rparr>]
       = Inr \<lparr>Gene = NewRGBA (image_Rect 0 0 1 1), Fitness = 9\<rparr>"
  using getBest_maximum
    [of "[\<lparr>Gene = NewRGBA (image_Rect 0 0 1 1), Fitness = 3\<rparr>,
          \<lparr>Gene = NewRGBA (image_Rect 0 0 1 1), Fitness = 9\<rparr>,
          \<lparr>Gene = NewRGBA (image_Rect 0 0 2 1), Fitness = 9\<rparr>]"]
  by (simp add: getBest_def getBest_loop.simps word_sless_alt)

text \<open>
  The baseline 0 is visible only on values that \<^verbatim>\<open>calcFitness\<close> never stores: when no
  fitness is positive, the genome at index 0 is returned.
\<close>

lemma getBest_baseline:
  "getBest [\<lparr>Gene = NewRGBA (image_Rect 0 0 1 1), Fitness = - 5\<rparr>,
            \<lparr>Gene = NewRGBA (image_Rect 0 0 1 1), Fitness = - 1\<rparr>]
     = Inr \<lparr>Gene = NewRGBA (image_Rect 0 0 1 1), Fitness = - 5\<rparr>"
  by (simp add: getBest_def getBest_loop.simps word_sless_alt)

lemma getBest_empty: "getBest [] = Inl IndexOutOfRange"
  by (simp add: getBest_def getBest_loop.simps)

section \<open>Properties of the square root\<close>

text \<open>
  \<open>isqrt\<close> is the integer square root, that is the real square root rounded down; the
  root of a non-negative sum lies in \<open>[0, 2^32)\<close>.
\<close>

lemma isqrt_bounds: "(isqrt n)\<^sup>2 \<le> n \<and> n < (isqrt n + 1)\<^sup>2"
proof (induction n rule: isqrt.induct)
  case (1 n)
  show ?case
  proof (cases "n < 2")
    case True
    then have "isqrt n = n" by (subst isqrt.simps) simp
    moreover from True have "n = 0 \<or> n = 1" by auto
    ultimately show ?thesis by (auto simp: power2_eq_square)
  next
    case False
    let ?r = "2 * isqrt (n div 4)"
    from False 1 have ih: "(isqrt (n div 4))\<^sup>2 \<le> n div 4" "n div 4 < (isqrt (n div 4) + 1)\<^sup>2"
      by simp_all
    have lo: "?r\<^sup>2 \<le> n"
    proof -
      have "?r\<^sup>2 = 4 * (isqrt (n div 4))\<^sup>2" by (simp add: power2_eq_square)
      also have "\<dots> \<le> 4 * (n div 4)" using ih(1) by simp
      also have "\<dots> \<le> n" by simp
      finally show ?thesis .
    qed
    have hi: "n < (?r + 2)\<^sup>2"
    proof -
      have "n < 4 * (n div 4 + 1)" by simp
      also have "\<dots> \<le> 4 * (isqrt (n div 4) + 1)\<^sup>2" using ih(2) by simp
      also have "\<dots> = (?r + 2)\<^sup>2" by (simp add: power2_eq_square algebra_simps)
      finally show ?thesis .
    qed
    show ?thesis
    proof (cases "(?r + 1) * (?r + 1) \<le> n")
      case True
      with False have "isqrt n = ?r + 1" by (subst isqrt.simps) (simp add: Let_def)
      moreover have "?r + 1 + 1 = ?r + 2" by simp
      ultimately show ?thesis using True hi by (simp add: power2_eq_square)
    next
      case no: False
      with False have "isqrt n = ?r" by (subst isqrt.simps) (simp add: Let_def)
      with no lo show ?thesis by (simp add: power2_eq_square)
    qed
  qed
qed

lemma isqrt_floor_sqrt: "int (isqrt n) = \<lfloor>sqrt (real n)\<rfloor>"
proof -
  from isqrt_bounds [of n] have "(real (isqrt n))\<^sup>2 \<le> real n" "real n < (real (isqrt n) + 1)\<^sup>2"
    by (metis of_nat_le_iff of_nat_power, metis of_nat_less_iff of_nat_power of_nat_Suc Suc_eq_plus1 add.commute)
  then have "real (isqrt n) \<le> sqrt (real n)" "sqrt (real n) < real (isqrt n) + 1"
    by (simp_all add: real_le_rsqrt real_less_lsqrt)
  then show ?thesis by linarith
qed

lemma isqrt_less: "n < 2 ^ 64 \<Longrightarrow> isqrt n < 2 ^ 32"
proof -
  assume "n < 2 ^ 64"
  with isqrt_bounds [of n] have "(isqrt n)\<^sup>2 < (2 ^ 32)\<^sup>2" by simp
  then show ?thesis by (rule power2_less_imp_less) simp
qed

lemma sqrt_int64_range:
  assumes "0 \<le> sint d"
  shows "0 \<le> sint (sqrt_int64 d) \<and> sint (sqrt_int64 d) < 2 ^ 32"
proof -
  let ?n = "isqrt (nat (sint d))"
  have "sint d < 2 ^ 63" using sint_lt [of d] by simp
  then have "nat (sint d) < 2 ^ 64"
    by (cases "0 \<le> sint d") (simp_all add: nat_less_iff)
  then have "?n < 2 ^ 32" by (rule isqrt_less)
  then have b: "int ?n < 2 ^ 32" by (metis of_nat_less_iff of_nat_numeral of_nat_power)
  have "sqrt_int64 d = word_of_int (int ?n)" using assms by (simp add: sqrt_int64_def)
  moreover have "sint (word_of_int (int ?n) :: int64) = int ?n"
    using b by (intro sint_word_of_int_small) simp_all
  ultimately show ?thesis using b by simp
qed

text \<open>
  The distance of two buffers, the first shorter than \<open>2^47\<close> bytes and not longer than
  the second: \<^verbatim>\<open>diff\<close> returns, and the value is in \<open>[0, 2^32)\<close>.
\<close>

lemma diff_range:
  assumes "length (Pix a) \<le> length (Pix b)" and "length (Pix a) < 2 ^ 47"
  shows "\<exists>f. diff a b = Inr f \<and> 0 \<le> sint f \<and> sint f < 2 ^ 32"
proof -
  from diff_loop_exact [OF assms] obtain d where
    d: "diff_loop (Pix a) (Pix b) 0 0 = Inr d"
      "sint d = (\<Sum>j = 0..<length (Pix a). (uint (Pix a ! j) - uint (Pix b ! j))\<^sup>2)"
    by blast
  have "0 \<le> sint d" unfolding d(2) by (rule sum_nonneg) simp
  from sqrt_int64_range [OF this] d(1) show ?thesis by (simp add: diff_def)
qed

section \<open>Properties of the pool\<close>

lemma sint_succ_below: "n <s (num :: int64) \<Longrightarrow> sint (n + 1) = sint n + 1"
proof -
  assume "n <s num"
  then have "sint n < sint num" by (simp add: word_sless_alt)
  moreover have "sint num < 2 ^ 63" using sint_lt [of num] by simp
  moreover have "- (2 ^ 63) \<le> sint n" using sint_ge [of n] by simp
  ultimately have r: "- (2 ^ 63) \<le> sint n + 1" "sint n + 1 < 2 ^ 63" by linarith+
  have "sint (n + 1) = signed_take_bit 63 (sint n + 1)"
    by (simp add: sint_word_add)
  also have "\<dots> = sint n + 1"
    using r by (simp add: signed_take_bit_int_eq_self)
  finally show ?thesis .
qed

lemma createPool_inner_closed:
  "createPool_inner x num n pool = pool @ replicate (nat (sint num - sint n)) x"
proof (induction x num n pool rule: createPool_inner.induct)
  case (1 x num n pool)
  show ?case
  proof (cases "n <s num")
    case True
    then have s: "sint (n + 1) = sint n + 1" by (rule sint_succ_below)
    from True have "sint n < sint num" by (simp add: word_sless_alt)
    then have "nat (sint num - sint n) = Suc (nat (sint num - (sint n + 1)))" by linarith
    with True 1 s show ?thesis
      by (subst createPool_inner.simps) (simp add: replicate_append_same)
  next
    case False
    then have "sint num - sint n \<le> 0" by (simp add: word_sless_alt)
    with False show ?thesis by (subst createPool_inner.simps) simp
  qed
qed

lemma createPool_loop_closed:
  "createPool_loop num tops i pool
     = pool @ concat (map (\<lambda>j. replicate (nat (sint (num tops j))) (tops ! j))
                          [i..<length tops - 1])"
proof (induction num tops i pool rule: createPool_loop.induct)
  case (1 num tops i pool)
  show ?case
  proof (cases "i < length tops - 1")
    case True
    with 1 show ?thesis
      by (subst createPool_loop.simps) (simp add: createPool_inner_closed upt_conv_Cons)
  next
    case False
    then show ?thesis by (subst createPool_loop.simps) simp
  qed
qed

lemma sint_eq_iff: "sint (a :: int64) = sint b \<longleftrightarrow> a = b"
  by (auto intro: signed_word_eqI [where ?'a = int])

text \<open>
  The sort: ascending, a permutation, stable; and these three properties determine the
  result, so that every stable sort returns it.
\<close>

lemma sorted_sortSliceStable:
  "sorted (map (\<lambda>d. sint (Fitness d)) (sortSliceStable population))"
  by (simp add: sortSliceStable_def)

lemma mset_sortSliceStable: "mset (sortSliceStable population) = mset population"
  by (simp add: sortSliceStable_def)

lemma set_sortSliceStable: "set (sortSliceStable population) = set population"
  by (simp add: sortSliceStable_def)

lemma length_sortSliceStable: "length (sortSliceStable population) = length population"
  by (simp add: sortSliceStable_def)

lemma stable_sortSliceStable:
  "filter (\<lambda>d. Fitness d = f) (sortSliceStable population)
     = filter (\<lambda>d. Fitness d = f) population"
proof -
  have "filter (\<lambda>d. sint (Fitness d) = sint f) (sortSliceStable population)
     = filter (\<lambda>d. sint (Fitness d) = sint f) population"
    unfolding sortSliceStable_def by (rule sort_key_stable)
  then show ?thesis by (simp add: sint_eq_iff)
qed

lemma sortSliceStable_unique:
  assumes "mset ys = mset population"
    and "sorted (map (\<lambda>d. sint (Fitness d)) ys)"
    and "\<And>f. filter (\<lambda>d. Fitness d = f) ys = filter (\<lambda>d. Fitness d = f) population"
  shows "ys = sortSliceStable population"
proof -
  have "sort_key (\<lambda>d. sint (Fitness d)) population = ys"
  proof (rule properties_for_sort_key [OF assms(1) _ assms(2)])
    fix k
    assume "k \<in> set ys"
    from assms(3) [of "Fitness k"]
    show "filter (\<lambda>x. sint (Fitness k) = sint (Fitness x)) ys
        = filter (\<lambda>x. sint (Fitness k) = sint (Fitness x)) population"
      by (simp add: sint_eq_iff eq_commute)
  qed
  then show ?thesis by (simp add: sortSliceStable_def)
qed

lemma fst_createPool_tri: "fst (createPool_tri PoolSize population) = sortSliceStable population"
  by (simp add: createPool_tri_def Let_def)

lemma fst_createPool_raw: "fst (createPool_raw PoolSize population) = sortSliceStable population"
  by (simp add: createPool_raw_def Let_def)

text \<open>
  C10. \<^verbatim>\<open>createPool\<close> leaves the caller's slice sorted, in both programs and also when it
  panics afterwards: the slice after the call is ascending by \<^verbatim>\<open>Fitness\<close>, it holds the
  same genomes with every field unchanged (a permutation), and genomes of equal fitness
  keep their relative order (the sort is stable).
\<close>

theorem createPool_sorts_population:
  "fst (createPool_tri PoolSize population) = fst (createPool_raw PoolSize population)
   \<and> sorted (map (\<lambda>d. sint (Fitness d)) (fst (createPool_tri PoolSize population)))
   \<and> mset (fst (createPool_tri PoolSize population)) = mset population
   \<and> (\<forall>f. filter (\<lambda>d. Fitness d = f) (fst (createPool_tri PoolSize population))
            = filter (\<lambda>d. Fitness d = f) population)"
  by (simp add: fst_createPool_tri fst_createPool_raw sorted_sortSliceStable
        mset_sortSliceStable stable_sortSliceStable)

text \<open>The original order is lost: the genome of fitness 3 moves to the front.\<close>

lemma createPool_reorders:
  "fst (createPool_raw 1
          [\<lparr>Gene = NewRGBA (image_Rect 0 0 1 1), Fitness = 5\<rparr>,
           \<lparr>Gene = NewRGBA (image_Rect 0 0 2 1), Fitness = 3\<rparr>,
           \<lparr>Gene = NewRGBA (image_Rect 0 0 3 1), Fitness = 5\<rparr>])
     = [\<lparr>Gene = NewRGBA (image_Rect 0 0 2 1), Fitness = 3\<rparr>,
        \<lparr>Gene = NewRGBA (image_Rect 0 0 1 1), Fitness = 5\<rparr>,
        \<lparr>Gene = NewRGBA (image_Rect 0 0 3 1), Fitness = 5\<rparr>]"
  by (simp add: fst_createPool_raw sortSliceStable_def)

text \<open>The pool that the outer loop builds: its length and its elements.\<close>

lemma length_createPool_loop:
  "int (length (createPool_loop num tops 0 []))
     = (\<Sum>j<length tops - 1. max 0 (sint (num tops j)))"
proof -
  have "length (createPool_loop num tops 0 [])
      = sum_list (map (\<lambda>j. nat (sint (num tops j))) [0..<length tops - 1])"
    by (simp add: createPool_loop_closed length_concat comp_def)
  also have "\<dots> = (\<Sum>j<length tops - 1. nat (sint (num tops j)))"
    by (simp add: interv_sum_list_conv_sum_set_nat atLeast0LessThan)
  finally have "int (length (createPool_loop num tops 0 []))
      = (\<Sum>j<length tops - 1. int (nat (sint (num tops j))))"
    by simp
  also have "\<dots> = (\<Sum>j<length tops - 1. max 0 (sint (num tops j)))"
    by (rule sum.cong) (simp_all add: max_def)
  finally show ?thesis .
qed

lemma set_createPool_loop:
  "set (createPool_loop num tops 0 []) \<subseteq> set (take (length tops - 1) tops)"
proof
  fix x
  assume "x \<in> set (createPool_loop num tops 0 [])"
  then obtain j where "j < length tops - 1" and "x = tops ! j"
    by (auto simp: createPool_loop_closed)
  then show "x \<in> set (take (length tops - 1) tops)"
    by (auto simp: in_set_conv_nth intro!: exI [of _ j])
qed

lemma sint_sub_small:
  fixes a b :: int64
  assumes "0 \<le> sint a" "sint a < 2 ^ 32" "0 \<le> sint b" "sint b < 2 ^ 32"
  shows "sint (b - a) = sint b - sint a"
    and "sint ((b - a) * 10) = 10 * (sint b - sint a)"
proof -
  have "sint (b - a) = signed_take_bit 63 (sint b - sint a)"
    by (simp add: sint_word_ariths)
  also have "\<dots> = sint b - sint a"
    using assms by (simp add: signed_take_bit_int_eq_self)
  finally show d: "sint (b - a) = sint b - sint a" .
  have "sint ((b - a) * 10) = signed_take_bit 63 (sint (b - a) * sint (10 :: int64))"
    by (simp only: sint_word_ariths len_bit0 len_num1 mult_1_right) simp
  also have "\<dots> = signed_take_bit 63 (10 * (sint b - sint a))"
    by (simp add: d mult.commute)
  also have "\<dots> = 10 * (sint b - sint a)"
    using assms by (simp add: signed_take_bit_int_eq_self)
  finally show "sint ((b - a) * 10) = 10 * (sint b - sint a)" .
qed

lemma sortSliceStable_nth_mono:
  assumes "j \<le> k" and "k < length population"
  shows "sint (Fitness (sortSliceStable population ! j))
           \<le> sint (Fitness (sortSliceStable population ! k))"
proof -
  let ?s = "sortSliceStable population"
  have k: "k < length (map (\<lambda>d. sint (Fitness d)) ?s)"
    using assms(2) by (simp add: length_sortSliceStable)
  from sorted_nth_mono [OF sorted_sortSliceStable assms(1) k]
  show ?thesis using assms k by simp
qed

text \<open>
  C5. Let the population be longer than \<^verbatim>\<open>PoolSize\<close> and every fitness be in the range
  \<open>[0, 2^32)\<close> of the values that \<^verbatim>\<open>calcFitness\<close> stores (\<open>diff_range\<close>). In \<^verbatim>\<open>main.go\<close>, when the
  fitness at rank \<^verbatim>\<open>PoolSize\<close> differs from the fitness at rank 0 (the weighting path),
  the pool has as many elements as the sum over \<open>i < PoolSize\<close> of
  \<open>fitness[PoolSize] - fitness[i]\<close> in the sorted slice, and each of its elements is one of
  the first \<^verbatim>\<open>PoolSize\<close> genomes of the sorted slice. In the raw-pixel program the same
  holds with every weight multiplied by 10, on every such population.
\<close>

theorem createPool_weights:
  assumes "PoolSize < length population"
    and "\<forall>d\<in>set population. 0 \<le> sint (Fitness d) \<and> sint (Fitness d) < 2 ^ 32"
  shows "(Fitness (fst (createPool_tri PoolSize population) ! PoolSize)
            \<noteq> Fitness (fst (createPool_tri PoolSize population) ! 0) \<longrightarrow>
          (\<exists>pool. snd (createPool_tri PoolSize population) = Inr pool
             \<and> int (length pool)
                 = (\<Sum>i<PoolSize.
                      sint (Fitness (fst (createPool_tri PoolSize population) ! PoolSize))
                      - sint (Fitness (fst (createPool_tri PoolSize population) ! i)))
             \<and> set pool \<subseteq> set (take PoolSize (fst (createPool_tri PoolSize population)))))
       \<and> (\<exists>pool. snd (createPool_raw PoolSize population) = Inr pool
             \<and> int (length pool)
                 = (\<Sum>i<PoolSize.
                      10 * (sint (Fitness (fst (createPool_raw PoolSize population) ! PoolSize))
                            - sint (Fitness (fst (createPool_raw PoolSize population) ! i))))
             \<and> set pool \<subseteq> set (take PoolSize (fst (createPool_raw PoolSize population))))"
proof -
  let ?s = "sortSliceStable population"
  let ?tops = "take (PoolSize + 1) ?s"
  let ?f = "\<lambda>i. sint (Fitness (?s ! i))"
  have len: "length ?tops = PoolSize + 1" "length ?tops - 1 = PoolSize"
    using assms(1) by (simp_all add: length_sortSliceStable)
  have nth: "?tops ! i = ?s ! i" if "i \<le> PoolSize" for i
    using that by simp
  have take: "take PoolSize ?tops = take PoolSize ?s"
    by (simp add: min_def)
  have range: "0 \<le> ?f i \<and> ?f i < 2 ^ 32" if "i \<le> PoolSize" for i
  proof -
    from that assms(1) have "?s ! i \<in> set ?s"
      by (simp add: length_sortSliceStable)
    with assms(2) show ?thesis by (simp add: set_sortSliceStable)
  qed
  have mono: "?f i \<le> ?f PoolSize" if "i \<le> PoolSize" for i
    using that assms(1) by (rule sortSliceStable_nth_mono)
  let ?num = "\<lambda>tops i. Fitness (tops ! PoolSize) - Fitness (tops ! i)"
  let ?num10 = "\<lambda>tops i. (Fitness (tops ! PoolSize) - Fitness (tops ! i)) * 10"
  have w: "max 0 (sint (?num ?tops i)) = ?f PoolSize - ?f i" if "i < PoolSize" for i
  proof -
    from that have "sint (?num ?tops i) = ?f PoolSize - ?f i"
      using range [of i] range [of PoolSize] by (simp add: nth sint_sub_small(1))
    with mono [of i] that show ?thesis by simp
  qed
  have w10: "max 0 (sint (?num10 ?tops i)) = 10 * (?f PoolSize - ?f i)" if "i < PoolSize" for i
  proof -
    from that have e: "?tops ! i = ?s ! i" "?tops ! PoolSize = ?s ! PoolSize"
      by simp_all
    have "sint ((Fitness (?s ! PoolSize) - Fitness (?s ! i)) * 10) = 10 * (?f PoolSize - ?f i)"
      using range [of i] range [of PoolSize] that by (intro sint_sub_small(2)) simp_all
    then have "sint (?num10 ?tops i) = 10 * (?f PoolSize - ?f i)"
      by (simp only: e)
    with mono [of i] that show ?thesis by simp
  qed
  have l: "int (length (createPool_loop ?num ?tops 0 [])) = (\<Sum>i<PoolSize. ?f PoolSize - ?f i)"
    unfolding length_createPool_loop len(2)
  proof (rule sum.cong [OF refl])
    fix i
    assume "i \<in> {..<PoolSize}"
    then have "i < PoolSize" by simp
    then show "max 0 (sint (?num ?tops i)) = ?f PoolSize - ?f i" by (rule w)
  qed
  have l10: "int (length (createPool_loop ?num10 ?tops 0 []))
      = (\<Sum>i<PoolSize. 10 * (?f PoolSize - ?f i))"
    unfolding length_createPool_loop len(2)
  proof (rule sum.cong [OF refl])
    fix i
    assume "i \<in> {..<PoolSize}"
    then have "i < PoolSize" by simp
    then show "max 0 (sint (?num10 ?tops i)) = 10 * (?f PoolSize - ?f i)" by (rule w10)
  qed
  have m: "set (createPool_loop num ?tops 0 []) \<subseteq> set (take PoolSize ?s)" for num
    using set_createPool_loop [of num ?tops] by (simp only: len(2) take)
  have tri: "snd (createPool_tri PoolSize population) = Inr (createPool_loop ?num ?tops 0 [])"
    if "Fitness (?s ! PoolSize) \<noteq> Fitness (?s ! 0)"
    using that assms(1) by (simp add: createPool_tri_def Let_def length_sortSliceStable)
  have raw: "snd (createPool_raw PoolSize population) = Inr (createPool_loop ?num10 ?tops 0 [])"
    using assms(1) by (simp add: createPool_raw_def Let_def length_sortSliceStable)
  show ?thesis
    unfolding fst_createPool_tri fst_createPool_raw
    using tri raw l l10 m by blast
qed


theorem createPool_weights_witness:
  "2 < length
     [\<lparr>Gene = NewRGBA (image_Rect 0 0 1 1), Fitness = 7\<rparr>,
      \<lparr>Gene = NewRGBA (image_Rect 0 0 2 1), Fitness = 3\<rparr>,
      \<lparr>Gene = NewRGBA (image_Rect 0 0 3 1), Fitness = 5\<rparr>]
   \<and> list_all (\<lambda>d. 0 \<le> sint (Fitness d) \<and> sint (Fitness d) < 2 ^ 32)
     [\<lparr>Gene = NewRGBA (image_Rect 0 0 1 1), Fitness = 7\<rparr>,
      \<lparr>Gene = NewRGBA (image_Rect 0 0 2 1), Fitness = 3\<rparr>,
      \<lparr>Gene = NewRGBA (image_Rect 0 0 3 1), Fitness = 5\<rparr>]
   \<and> fst (createPool_tri 2
     [\<lparr>Gene = NewRGBA (image_Rect 0 0 1 1), Fitness = 7\<rparr>,
      \<lparr>Gene = NewRGBA (image_Rect 0 0 2 1), Fitness = 3\<rparr>,
      \<lparr>Gene = NewRGBA (image_Rect 0 0 3 1), Fitness = 5\<rparr>])
     = [\<lparr>Gene = NewRGBA (image_Rect 0 0 2 1), Fitness = 3\<rparr>,
      \<lparr>Gene = NewRGBA (image_Rect 0 0 3 1), Fitness = 5\<rparr>,
      \<lparr>Gene = NewRGBA (image_Rect 0 0 1 1), Fitness = 7\<rparr>]
   \<and> (\<exists>pool. snd (createPool_tri 2
     [\<lparr>Gene = NewRGBA (image_Rect 0 0 1 1), Fitness = 7\<rparr>,
      \<lparr>Gene = NewRGBA (image_Rect 0 0 2 1), Fitness = 3\<rparr>,
      \<lparr>Gene = NewRGBA (image_Rect 0 0 3 1), Fitness = 5\<rparr>]) = Inr pool
         \<and> int (length pool) = (7 - 3) + (7 - 5)
         \<and> set pool \<subseteq> {\<lparr>Gene = NewRGBA (image_Rect 0 0 2 1), Fitness = 3\<rparr>,
                         \<lparr>Gene = NewRGBA (image_Rect 0 0 3 1), Fitness = 5\<rparr>})
   \<and> (\<exists>pool. snd (createPool_raw 2
     [\<lparr>Gene = NewRGBA (image_Rect 0 0 1 1), Fitness = 7\<rparr>,
      \<lparr>Gene = NewRGBA (image_Rect 0 0 2 1), Fitness = 3\<rparr>,
      \<lparr>Gene = NewRGBA (image_Rect 0 0 3 1), Fitness = 5\<rparr>]) = Inr pool
         \<and> int (length pool) = 10 * (7 - 3) + 10 * (7 - 5)
         \<and> set pool \<subseteq> {\<lparr>Gene = NewRGBA (image_Rect 0 0 2 1), Fitness = 3\<rparr>,
                         \<lparr>Gene = NewRGBA (image_Rect 0 0 3 1), Fitness = 5\<rparr>})"
proof -
  let ?pop = "[\<lparr>Gene = NewRGBA (image_Rect 0 0 1 1), Fitness = 7\<rparr>,
      \<lparr>Gene = NewRGBA (image_Rect 0 0 2 1), Fitness = 3\<rparr>,
      \<lparr>Gene = NewRGBA (image_Rect 0 0 3 1), Fitness = 5\<rparr>]"
  have h1: "2 < length ?pop" by simp
  have h2: "\<forall>d\<in>set ?pop. 0 \<le> sint (Fitness d) \<and> sint (Fitness d) < 2 ^ 32" by simp
  have s: "sortSliceStable ?pop = [\<lparr>Gene = NewRGBA (image_Rect 0 0 2 1), Fitness = 3\<rparr>,
      \<lparr>Gene = NewRGBA (image_Rect 0 0 3 1), Fitness = 5\<rparr>,
      \<lparr>Gene = NewRGBA (image_Rect 0 0 1 1), Fitness = 7\<rparr>]"
    by (simp add: sortSliceStable_def)
  have two: "(\<Sum>i<2. f i) = f 0 + f 1" for f :: "nat \<Rightarrow> int"
    by (simp add: lessThan_Suc numeral_2_eq_2)
  from createPool_weights [OF h1 h2] h1 h2 show ?thesis
    unfolding fst_createPool_tri fst_createPool_raw s two by simp
qed

section \<open>Properties of crossover\<close>

text \<open>\<^verbatim>\<open>rand.Intn\<close>: its range, its panic, and that every index of the range is drawn.\<close>

lemma Intn_positive:
  "0 < n \<Longrightarrow> Intn n g = Inr (int (g 0) mod n, advance 1 g)"
  by (simp add: Intn_def)

lemma Intn_range:
  assumes "Intn n g = Inr (m, g')"
  shows "0 < n" and "0 \<le> m" and "m < n" and "g' = advance 1 g"
  using assms by (auto simp: Intn_def split: if_splits)

lemma Intn_any:
  assumes "0 \<le> m" and "m < n"
  shows "Intn n (\<lambda>i. nat m) = Inr (m, \<lambda>i. nat m)"
  using assms by (simp add: Intn_def advance_def)

lemma Intn_panics: "n \<le> 0 \<Longrightarrow> Intn n g = Inl InvalidIntnArgument"
  by (simp add: Intn_def)

text \<open>
  The loop of \<^verbatim>\<open>crossover\<close> in closed form: it panics exactly when some index up to
  \<open>mid\<close> is missing in the second parent.
\<close>

lemma crossover_loop_closed:
  "crossover_loop mid u1 u2 i child =
     (if \<exists>j. i \<le> j \<and> j < length u1 \<and> int j \<le> mid \<and> length u2 \<le> j
      then Inl IndexOutOfRange
      else Inr (child @ map (\<lambda>j. if int j > mid then u1 ! j else u2 ! j) [i..<length u1]))"
proof (induction mid u1 u2 i child rule: crossover_loop.induct)
  case (1 mid u1 u2 i child)
  let ?bad = "\<lambda>i. \<exists>j. i \<le> j \<and> j < length u1 \<and> int j \<le> mid \<and> length u2 \<le> j"
  let ?f = "\<lambda>j. if int j > mid then u1 ! j else u2 ! j"
  show ?case
  proof (cases "i < length u1")
    case False
    then have "crossover_loop mid u1 u2 i child = Inr child"
      by (subst crossover_loop.simps) simp
    moreover from False have "\<not> ?bad i" by auto
    moreover from False have "[i..<length u1] = []" by simp
    ultimately show ?thesis by simp
  next
    case True
    show ?thesis
    proof (cases "int i > mid")
      case gt: True
      from True gt have step: "crossover_loop mid u1 u2 i child
          = crossover_loop mid u1 u2 (Suc i) (child @ [u1 ! i])"
        by (subst crossover_loop.simps) simp
      have b: "?bad i \<longleftrightarrow> ?bad (Suc i)"
        using gt by (metis Suc_leD Suc_le_eq le_neq_implies_less not_less)
      have m: "child @ map ?f [i..<length u1] = (child @ [u1 ! i]) @ map ?f [Suc i..<length u1]"
        using True gt by (simp add: upt_conv_Cons)
      show ?thesis unfolding step "1.IH"(1) [OF True gt] b m ..
    next
      case le: False
      show ?thesis
      proof (cases "i < length u2")
        case inb: True
        from True le inb have step: "crossover_loop mid u1 u2 i child
            = crossover_loop mid u1 u2 (Suc i) (child @ [u2 ! i])"
          by (subst crossover_loop.simps) simp
        have b: "?bad i \<longleftrightarrow> ?bad (Suc i)"
          using inb by (metis Suc_leD Suc_le_eq le_neq_implies_less not_less)
        have m: "child @ map ?f [i..<length u1] = (child @ [u2 ! i]) @ map ?f [Suc i..<length u1]"
          using True le by (simp add: upt_conv_Cons)
        show ?thesis unfolding step "1.IH"(2) [OF True le inb] b m ..
      next
        case out: False
        from True le out have "crossover_loop mid u1 u2 i child = Inl IndexOutOfRange"
          by (subst crossover_loop.simps) simp
        moreover from True le out have "?bad i" by (intro exI [of _ i]) simp
        ultimately show ?thesis by simp
      qed
    qed
  qed
qed

lemma crossover_loop_equal_length:
  assumes "length u1 \<le> length u2"
  shows "crossover_loop mid u1 u2 0 []
           = Inr (map (\<lambda>j. if int j > mid then u1 ! j else u2 ! j) [0..<length u1])"
  using assms by (auto simp: crossover_loop_closed)

lemma crossover_loop_self: "crossover_loop mid u u 0 [] = Inr u"
  by (simp add: crossover_loop_equal_length map_nth)

text \<open>
  C6. For parents with the same number of units (\<open>N\<close> triangles in \<^verbatim>\<open>main.go\<close>, \<open>M\<close>
  bytes in the raw-pixel program) and the split index \<open>mid\<close> that \<^verbatim>\<open>rand.Intn\<close> draws,
  which lies in \<open>[0, N)\<close>, the child has the same number of units, and unit \<open>i\<close> is that
  of the first parent when \<open>i > mid\<close> and that of the second parent otherwise; the unit
  at \<open>mid\<close> itself is the second parent's.
\<close>

theorem crossover_split:
  assumes "length (Triangles a) = N" and "length (Triangles b) = N"
    and "Intn (int N) g = Inr (mid, g')"
    and "length (Pix (Gene p)) = M" and "length (Pix (Gene q)) = M"
    and "Intn (int M) h = Inr (mid', h')"
  shows "0 \<le> mid \<and> mid < int N
       \<and> (\<exists>child. crossover_tri fillTriangle a b g = Inr (child, g')
            \<and> length (Triangles child) = N
            \<and> (\<forall>i<N. Triangles child ! i
                  = (if int i > mid then Triangles a ! i else Triangles b ! i))
            \<and> Triangles child ! nat mid = Triangles b ! nat mid)
       \<and> 0 \<le> mid' \<and> mid' < int M
       \<and> (\<exists>child. crossover_raw p q h = Inr (child, h')
            \<and> length (Pix (Gene child)) = M
            \<and> (\<forall>i<M. Pix (Gene child) ! i
                  = (if int i > mid' then Pix (Gene p) ! i else Pix (Gene q) ! i))
            \<and> Pix (Gene child) ! nat mid' = Pix (Gene q) ! nat mid')"
proof -
  note r = Intn_range [OF assms(3)] and r' = Intn_range [OF assms(6)]
  let ?ts = "map (\<lambda>j. if int j > mid then Triangles a ! j else Triangles b ! j) [0..<N]"
  let ?px = "map (\<lambda>j. if int j > mid' then Pix (Gene p) ! j else Pix (Gene q) ! j) [0..<M]"
  have "crossover_loop mid (Triangles a) (Triangles b) 0 [] = Inr ?ts"
    using assms(1,2) by (simp add: crossover_loop_equal_length)
  then have t: "crossover_tri fillTriangle a b g
      = Inr (\<lparr>Gene = draw fillTriangle (Dx (Rect (Gene a))) (Dy (Rect (Gene a))) ?ts,
              Fitness = 0, Triangles = ?ts\<rparr>, g')"
    using assms(1,3) by (simp add: crossover_tri_def andThen_def)
  have "crossover_loop mid' (Pix (Gene p)) (Pix (Gene q)) 0 [] = Inr ?px"
    using assms(4,5) by (simp add: crossover_loop_equal_length)
  then have x: "crossover_raw p q h
      = Inr (\<lparr>Gene = \<lparr>Pix = ?px, Stride = Stride (Gene p), Rect = Rect (Gene p)\<rparr>,
              Fitness = 0\<rparr>, h')"
    using assms(4,6) by (simp add: crossover_raw_def andThen_def)
  have "nat mid < N" "nat mid' < M" using r r' by simp_all
  then show ?thesis using r(2,3) r'(2,3) by (simp add: t x)
qed


theorem crossover_split_witness:
  "length (Triangles 
     \<lparr>Gene = NewRGBA (image_Rect 0 0 1 1), Fitness = 0, Triangles = [sample_triangle 1, sample_triangle 2, sample_triangle 3]\<rparr>) = 3
   \<and> length (Triangles 
     \<lparr>Gene = NewRGBA (image_Rect 0 0 1 1), Fitness = 0, Triangles = [sample_triangle 4, sample_triangle 5, sample_triangle 6]\<rparr>) = 3
   \<and> Intn (int 3) (\<lambda>i. 7) = Inr (1, \<lambda>i. 7)
   \<and> length (Pix (Gene 
     \<lparr>Gene = \<lparr>Pix = [1, 2, 3, 4], Stride = 4, Rect = image_Rect 0 0 1 1\<rparr>, Fitness = 9\<rparr>)) = 4
   \<and> length (Pix (Gene 
     \<lparr>Gene = \<lparr>Pix = [5, 6, 7, 8], Stride = 4, Rect = image_Rect 0 0 1 1\<rparr>, Fitness = 2\<rparr>)) = 4
   \<and> Intn (int 4) (\<lambda>i. 6) = Inr (2, \<lambda>i. 6)
   \<and> crossover_tri flood 
     \<lparr>Gene = NewRGBA (image_Rect 0 0 1 1), Fitness = 0, Triangles = [sample_triangle 1, sample_triangle 2, sample_triangle 3]\<rparr> 
     \<lparr>Gene = NewRGBA (image_Rect 0 0 1 1), Fitness = 0, Triangles = [sample_triangle 4, sample_triangle 5, sample_triangle 6]\<rparr> (\<lambda>i. 7)
       = Inr (\<lparr>Gene = draw flood 1 1 [sample_triangle 4, sample_triangle 5, sample_triangle 3],
               Fitness = 0,
               Triangles = [sample_triangle 4, sample_triangle 5, sample_triangle 3]\<rparr>,
              \<lambda>i. 7)
   \<and> crossover_raw 
     \<lparr>Gene = \<lparr>Pix = [1, 2, 3, 4], Stride = 4, Rect = image_Rect 0 0 1 1\<rparr>, Fitness = 9\<rparr> 
     \<lparr>Gene = \<lparr>Pix = [5, 6, 7, 8], Stride = 4, Rect = image_Rect 0 0 1 1\<rparr>, Fitness = 2\<rparr> (\<lambda>i. 6)
       = Inr (\<lparr>Gene = \<lparr>Pix = [5, 6, 7, 4], Stride = 4, Rect = image_Rect 0 0 1 1\<rparr>,
               Fitness = 0\<rparr>,
              \<lambda>i. 6)"
proof -
  have h1: "length (Triangles 
     \<lparr>Gene = NewRGBA (image_Rect 0 0 1 1), Fitness = 0, Triangles = [sample_triangle 1, sample_triangle 2, sample_triangle 3]\<rparr>) = 3" by simp
  have h2: "length (Triangles 
     \<lparr>Gene = NewRGBA (image_Rect 0 0 1 1), Fitness = 0, Triangles = [sample_triangle 4, sample_triangle 5, sample_triangle 6]\<rparr>) = 3" by simp
  have h3: "Intn (int 3) (\<lambda>i. 7) = Inr (1, \<lambda>i. 7)" by (simp add: Intn_def advance_def)
  have h4: "length (Pix (Gene 
     \<lparr>Gene = \<lparr>Pix = [1, 2, 3, 4], Stride = 4, Rect = image_Rect 0 0 1 1\<rparr>, Fitness = 9\<rparr>)) = 4" by simp
  have h5: "length (Pix (Gene 
     \<lparr>Gene = \<lparr>Pix = [5, 6, 7, 8], Stride = 4, Rect = image_Rect 0 0 1 1\<rparr>, Fitness = 2\<rparr>)) = 4" by simp
  have h6: "Intn (int 4) (\<lambda>i. 6) = Inr (2, \<lambda>i. 6)" by (simp add: Intn_def advance_def)
  have d: "Dx (image_Rect 0 0 1 1) = 1" "Dy (image_Rect 0 0 1 1) = 1"
    by (simp_all add: Dx_def Dy_def image_Rect_def)
  from crossover_split [OF h1 h2 h3 h4 h5 h6, of flood] h3 h6 show ?thesis
    by (simp add: crossover_tri_def crossover_raw_def andThen_def crossover_loop.simps
          NewRGBA_def d)
qed

text \<open>
  C7. Crossover of a genome with itself: whatever the split index, the loop returns the
  parent's units. In \<^verbatim>\<open>main.go\<close> the child has the parent's triangle list and its image
  is the rendering of that list; in the raw-pixel program the child's image is the
  parent's, byte for byte. (A genome without units has no split index: \<^verbatim>\<open>rand.Intn\<close>
  panics.)
\<close>

theorem crossover_self:
  "(Triangles A \<noteq> [] \<longrightarrow>
      (\<exists>child. crossover_tri fillTriangle A A g = Inr (child, advance 1 g)
         \<and> Triangles child = Triangles A
         \<and> Gene child
             = draw fillTriangle (Dx (Rect (Gene A))) (Dy (Rect (Gene A))) (Triangles A)))
   \<and> (Pix (Gene P) \<noteq> [] \<longrightarrow>
      (\<exists>child. crossover_raw P P h = Inr (child, advance 1 h)
         \<and> Pix (Gene child) = Pix (Gene P)
         \<and> Gene child = Gene P))
   \<and> (\<forall>mid. crossover_loop mid (Triangles A) (Triangles A) 0 [] = Inr (Triangles A)
            \<and> crossover_loop mid (Pix (Gene P)) (Pix (Gene P)) 0 [] = Inr (Pix (Gene P)))"
proof -
  have "\<exists>child. crossover_tri fillTriangle A A g = Inr (child, advance 1 g)
         \<and> Triangles child = Triangles A
         \<and> Gene child
             = draw fillTriangle (Dx (Rect (Gene A))) (Dy (Rect (Gene A))) (Triangles A)"
    if "Triangles A \<noteq> []"
  proof -
    from that have "0 < int (length (Triangles A))" by simp
    then show ?thesis
      by (simp add: crossover_tri_def andThen_def Intn_positive crossover_loop_self)
  qed
  moreover have "\<exists>child. crossover_raw P P h = Inr (child, advance 1 h)
         \<and> Pix (Gene child) = Pix (Gene P) \<and> Gene child = Gene P"
    if "Pix (Gene P) \<noteq> []"
  proof -
    from that have "0 < int (length (Pix (Gene P)))" by simp
    then show ?thesis
      by (simp add: crossover_raw_def andThen_def Intn_positive crossover_loop_self)
  qed
  ultimately show ?thesis by (simp add: crossover_loop_self)
qed

theorem crossover_self_witness:
  "Triangles 
     \<lparr>Gene = NewRGBA (image_Rect 0 0 1 1), Fitness = 0, Triangles = [sample_triangle 1, sample_triangle 2, sample_triangle 3]\<rparr> \<noteq> []
   \<and> Pix (Gene 
     \<lparr>Gene = \<lparr>Pix = [1, 2, 3, 4], Stride = 4, Rect = image_Rect 0 0 1 1\<rparr>, Fitness = 9\<rparr>) \<noteq> []
   \<and> crossover_tri flood 
     \<lparr>Gene = NewRGBA (image_Rect 0 0 1 1), Fitness = 0, Triangles = [sample_triangle 1, sample_triangle 2, sample_triangle 3]\<rparr> 
     \<lparr>Gene = NewRGBA (image_Rect 0 0 1 1), Fitness = 0, Triangles = [sample_triangle 1, sample_triangle 2, sample_triangle 3]\<rparr> (\<lambda>i. 7)
       = Inr (\<lparr>Gene = draw flood 1 1 [sample_triangle 1, sample_triangle 2, sample_triangle 3],
               Fitness = 0,
               Triangles = [sample_triangle 1, sample_triangle 2, sample_triangle 3]\<rparr>,
              \<lambda>i. 7)
   \<and> crossover_raw 
     \<lparr>Gene = \<lparr>Pix = [1, 2, 3, 4], Stride = 4, Rect = image_Rect 0 0 1 1\<rparr>, Fitness = 9\<rparr> 
     \<lparr>Gene = \<lparr>Pix = [1, 2, 3, 4], Stride = 4, Rect = image_Rect 0 0 1 1\<rparr>, Fitness = 9\<rparr> (\<lambda>i. 6)
       = Inr (\<lparr>Gene = \<lparr>Pix = [1, 2, 3, 4], Stride = 4, Rect = image_Rect 0 0 1 1\<rparr>,
               Fitness = 0\<rparr>,
              \<lambda>i. 6)"
proof -
  have d: "Dx (image_Rect 0 0 1 1) = 1" "Dy (image_Rect 0 0 1 1) = 1"
    by (simp_all add: Dx_def Dy_def image_Rect_def)
  from crossover_self
    [of "\<lparr>Gene = NewRGBA (image_Rect 0 0 1 1), Fitness = 0, Triangles = [sample_triangle 1, sample_triangle 2, sample_triangle 3]\<rparr>"
        flood "\<lambda>i. 7"
        "\<lparr>Gene = \<lparr>Pix = [1, 2, 3, 4], Stride = 4, Rect = image_Rect 0 0 1 1\<rparr>, Fitness = 9\<rparr>"
        "\<lambda>i. 6"]
  show ?thesis
    by (simp add: crossover_tri_def crossover_raw_def andThen_def crossover_loop.simps
          Intn_def advance_def NewRGBA_def d)
qed

section \<open>Properties of natural selection\<close>

text \<open>
  The loop that fills the slots: when its body never panics, it returns as many genomes
  as there are slots, each of them returned by the body; when the body panics, so does
  the loop.
\<close>

lemma fill_slots_total:
  assumes "\<And>g. \<exists>child g'. body g = Inr (child, g') \<and> Q child"
  shows "\<exists>slots g'. fill_slots body n i acc g = Inr (slots, g')
           \<and> length slots = length acc + (n - i)
           \<and> (\<forall>d\<in>set slots. d \<in> set acc \<or> Q d)"
  using assms
proof (induction body n i acc g rule: fill_slots.induct)
  case (1 body n i acc g)
  show ?case
  proof (cases "i < n")
    case False
    then show ?thesis by (subst fill_slots.simps) simp
  next
    case True
    from "1.prems" [of g] obtain child g' where b: "body g = Inr (child, g')" and q: "Q child"
      by blast
    from "1.IH" [OF True b refl "1.prems"] obtain slots g'' where
      r: "fill_slots body n (Suc i) (acc @ [child]) g' = Inr (slots, g'')"
        "length slots = length (acc @ [child]) + (n - Suc i)"
        "\<forall>d\<in>set slots. d \<in> set (acc @ [child]) \<or> Q d"
      by blast
    from True b r(1) have "fill_slots body n i acc g = Inr (slots, g'')"
      by (subst fill_slots.simps) simp
    moreover from True r(2) have "length slots = length acc + (n - i)" by simp
    moreover from r(3) q have "\<forall>d\<in>set slots. d \<in> set acc \<or> Q d" by auto
    ultimately show ?thesis by blast
  qed
qed

lemma fill_slots_panics:
  "i < n \<Longrightarrow> body g = Inl e \<Longrightarrow> fill_slots body n i acc g = Inl e"
  by (subst fill_slots.simps) simp

text \<open>
  Mutation keeps the number of units. In the raw-pixel program it cannot panic; in
  \<^verbatim>\<open>main.go\<close> it cannot panic on an image of positive width and height.
\<close>

lemma mutate_raw_loop_total:
  "\<exists>pix' g'. mutate_raw_loop rate pix i g = Inr (pix', g') \<and> length pix' = length pix"
proof (induction rate pix i g rule: mutate_raw_loop.induct)
  case (1 rate pix i g)
  show ?case
  proof (cases "i < length pix")
    case False
    then show ?thesis by (subst mutate_raw_loop.simps) simp
  next
    case True
    show ?thesis
    proof (cases "fst (Float64 g) < rate")
      case hit: True
      let ?v = "int (snd (Float64 g) 0) mod 255"
      let ?g = "advance 1 (snd (Float64 g))"
      have n: "Intn 255 (snd (Float64 g)) = Inr (?v, ?g)" by (simp add: Intn_positive)
      from "1.IH"(1) [OF True hit n refl] obtain pix' g' where
        "mutate_raw_loop rate (pix[i := word_of_int ?v]) (Suc i) ?g = Inr (pix', g')"
        "length pix' = length (pix[i := word_of_int ?v])"
        by blast
      with True hit n show ?thesis by (subst mutate_raw_loop.simps) simp
    next
      case miss: False
      from "1.IH"(2) [OF True miss] obtain pix' g' where
        "mutate_raw_loop rate pix (Suc i) (snd (Float64 g)) = Inr (pix', g')"
        "length pix' = length pix"
        by blast
      with True miss show ?thesis by (subst mutate_raw_loop.simps) simp
    qed
  qed
qed

lemma mutate_raw_total:
  "\<exists>child g'. mutate_raw rate d g = Inr (child, g')
     \<and> length (Pix (Gene child)) = length (Pix (Gene d))"
proof -
  from mutate_raw_loop_total [of rate "Pix (Gene d)" 0 g] obtain pix' g' where
    "mutate_raw_loop rate (Pix (Gene d)) 0 g = Inr (pix', g')" "length pix' = length (Pix (Gene d))"
    by blast
  then show ?thesis by (simp add: mutate_raw_def andThen_def)
qed

lemma createTriangle_total:
  "0 < w \<Longrightarrow> 0 < h \<Longrightarrow> \<exists>t g'. createTriangle w h g = Inr (t, g')"
  by (simp add: createTriangle_def andThen_def Intn_positive)

lemma createTriangle_panics:
  "w \<le> 0 \<Longrightarrow> createTriangle w h g = Inl InvalidIntnArgument"
  by (simp add: createTriangle_def andThen_def Intn_panics)

lemma mutate_tri_loop_total:
  assumes "0 < w" and "0 < h"
  shows "\<exists>ts g'. mutate_tri_loop rate w h triangles i g = Inr (ts, g')
           \<and> length ts = length triangles"
  using assms
proof (induction rate w h triangles i g rule: mutate_tri_loop.induct)
  case (1 rate w h triangles i g)
  show ?case
  proof (cases "i < length triangles")
    case False
    then show ?thesis by (subst mutate_tri_loop.simps) simp
  next
    case True
    show ?thesis
    proof (cases "fst (Float64 g) < rate")
      case hit: True
      from createTriangle_total [OF "1.prems", of "snd (Float64 g)"] obtain t g1 where
        c: "createTriangle w h (snd (Float64 g)) = Inr (t, g1)" by blast
      from "1.IH"(1) [OF True hit c refl "1.prems"] obtain ts g' where
        "mutate_tri_loop rate w h (triangles[i := t]) (Suc i) g1 = Inr (ts, g')"
        "length ts = length (triangles[i := t])"
        by blast
      with True hit c show ?thesis by (subst mutate_tri_loop.simps) simp
    next
      case miss: False
      from "1.IH"(2) [OF True miss "1.prems"] obtain ts g' where
        "mutate_tri_loop rate w h triangles (Suc i) (snd (Float64 g)) = Inr (ts, g')"
        "length ts = length triangles"
        by blast
      with True miss show ?thesis by (subst mutate_tri_loop.simps) simp
    qed
  qed
qed

text \<open>
  What is assumed of the renderer of \<^verbatim>\<open>draw2d\<close>: filling a path writes pixels of the
  image it is given and changes neither its rectangle nor the length of its buffer.
\<close>

lemma fold_fillTriangle:
  assumes "\<forall>t img. Rect (fillTriangle t img) = Rect img
                    \<and> length (Pix (fillTriangle t img)) = length (Pix img)"
  shows "Rect (fold fillTriangle triangles img) = Rect img
       \<and> length (Pix (fold fillTriangle triangles img)) = length (Pix img)"
  by (induction triangles arbitrary: img) (simp_all add: assms)

lemma draw_shape:
  assumes "\<forall>t img. Rect (fillTriangle t img) = Rect img
                    \<and> length (Pix (fillTriangle t img)) = length (Pix img)"
    and "0 \<le> w" and "0 \<le> h"
  shows "Dx (Rect (draw fillTriangle w h triangles)) = w"
    and "Dy (Rect (draw fillTriangle w h triangles)) = h"
    and "length (Pix (draw fillTriangle w h triangles)) = nat (4 * w * h)"
  using fold_fillTriangle
      [OF assms(1), where triangles = triangles and img = "NewRGBA (image_Rect 0 0 w h)"]
    assms(2,3)
  by (simp_all add: draw_def NewRGBA_def image_Rect_def Dx_def Dy_def)

lemma calcFitness_total:
  assumes "length (Pix (Gene d)) \<le> length (Pix target)" and "length (Pix target) < 2 ^ 47"
  shows "\<exists>f. calcFitness d target = Inr (d\<lparr>Fitness := f\<rparr>) \<and> 0 \<le> sint f \<and> sint f < 2 ^ 32"
proof -
  from assms have "length (Pix (Gene d)) < 2 ^ 47" by simp
  from diff_range [OF assms(1) this] obtain f where
    f: "diff (Gene d) target = Inr f" "0 \<le> sint f" "sint f < 2 ^ 32"
    by blast
  with calcFitness_stores_difference [OF f(1)] show ?thesis by blast
qed

text \<open>One child: two parents of the pool, crossover, mutation, fitness.\<close>

lemma Intn_index:
  assumes "pool \<noteq> []"
  shows "\<exists>r. Intn (int (length pool)) g = Inr (r, advance 1 g) \<and> pool ! nat r \<in> set pool"
proof -
  let ?r = "int (g 0) mod int (length pool)"
  from assms have p: "0 < int (length pool)" by simp
  then have "0 \<le> ?r" "?r < int (length pool)" by simp_all
  then have "nat ?r < length pool" by linarith
  then have "pool ! nat ?r \<in> set pool" by (rule nth_mem)
  with Intn_positive [OF p, of g] show ?thesis by blast
qed

lemma crossover_raw_total:
  assumes "length (Pix (Gene a)) = L" and "length (Pix (Gene b)) = L" and "0 < L"
  shows "\<exists>child. crossover_raw a b g = Inr (child, advance 1 g)
           \<and> length (Pix (Gene child)) = L"
proof -
  from assms(1,3) have "0 < int (length (Pix (Gene a)))" by simp
  moreover from assms(1,2) have "length (Pix (Gene a)) \<le> length (Pix (Gene b))" by simp
  ultimately show ?thesis
    using assms(1)
    by (simp add: crossover_raw_def andThen_def Intn_positive crossover_loop_equal_length)
qed

lemma crossover_tri_total:
  assumes "\<forall>t img. Rect (fillTriangle t img) = Rect img
                    \<and> length (Pix (fillTriangle t img)) = length (Pix img)"
    and "length (Triangles a) = N" and "length (Triangles b) = N" and "0 < N"
    and "0 \<le> Dx (Rect (Gene a))" and "0 \<le> Dy (Rect (Gene a))"
  shows "\<exists>child. crossover_tri fillTriangle a b g = Inr (child, advance 1 g)
           \<and> length (Triangles child) = N
           \<and> Dx (Rect (Gene child)) = Dx (Rect (Gene a))
           \<and> Dy (Rect (Gene child)) = Dy (Rect (Gene a))
           \<and> length (Pix (Gene child)) = nat (4 * Dx (Rect (Gene a)) * Dy (Rect (Gene a)))"
proof -
  from assms(2,4) have "0 < int (length (Triangles a))" by simp
  moreover from assms(2,3) have "length (Triangles a) \<le> length (Triangles b)" by simp
  ultimately show ?thesis
    using assms(2) draw_shape [OF assms(1,5,6)]
    by (simp add: crossover_tri_def andThen_def Intn_positive crossover_loop_equal_length)
qed

lemma mutate_tri_total:
  assumes "\<forall>t img. Rect (fillTriangle t img) = Rect img
                    \<and> length (Pix (fillTriangle t img)) = length (Pix img)"
    and "0 < Dx (Rect (Gene d))" and "0 < Dy (Rect (Gene d))"
  shows "\<exists>child g'. mutate_tri fillTriangle rate d g = Inr (child, g')
           \<and> length (Triangles child) = length (Triangles d)
           \<and> Dx (Rect (Gene child)) = Dx (Rect (Gene d))
           \<and> Dy (Rect (Gene child)) = Dy (Rect (Gene d))
           \<and> length (Pix (Gene child)) = nat (4 * Dx (Rect (Gene d)) * Dy (Rect (Gene d)))"
proof -
  from mutate_tri_loop_total [OF assms(2,3), of rate "Triangles d" 0 g] obtain ts g' where
    l: "mutate_tri_loop rate (Dx (Rect (Gene d))) (Dy (Rect (Gene d))) (Triangles d) 0 g
          = Inr (ts, g')" "length ts = length (Triangles d)"
    by blast
  from assms(2,3) have "0 \<le> Dx (Rect (Gene d))" "0 \<le> Dy (Rect (Gene d))" by simp_all
  from draw_shape [OF assms(1) this, where triangles = ts] l show ?thesis
    by (simp add: mutate_tri_def andThen_def)
qed

lemma reproduce_raw_total:
  assumes "pool \<noteq> []"
    and "\<forall>d\<in>set pool. length (Pix (Gene d)) = length (Pix target)"
    and "0 < length (Pix target)" and "length (Pix target) < 2 ^ 47"
  shows "\<exists>child g'. reproduce crossover_raw (mutate_raw rate) pool target g = Inr (child, g')
           \<and> length (Pix (Gene child)) = length (Pix target)
           \<and> 0 \<le> sint (Fitness child) \<and> sint (Fitness child) < 2 ^ 32"
proof -
  from Intn_index [OF assms(1)] obtain r1 where
    r1: "Intn (int (length pool)) g = Inr (r1, advance 1 g)" "pool ! nat r1 \<in> set pool"
    by blast
  from Intn_index [OF assms(1)] obtain r2 where
    r2: "Intn (int (length pool)) (advance 1 g) = Inr (r2, advance 1 (advance 1 g))"
      "pool ! nat r2 \<in> set pool"
    by blast
  from r1(2) r2(2) assms(2) have
    "length (Pix (Gene (pool ! nat r1))) = length (Pix target)"
    "length (Pix (Gene (pool ! nat r2))) = length (Pix target)"
    by simp_all
  from crossover_raw_total [OF this assms(3)] obtain c1 where
    c1: "crossover_raw (pool ! nat r1) (pool ! nat r2) (advance 1 (advance 1 g))
           = Inr (c1, advance 1 (advance 1 (advance 1 g)))"
      "length (Pix (Gene c1)) = length (Pix target)"
    by blast
  from mutate_raw_total [of rate c1] obtain c2 g' where
    c2: "mutate_raw rate c1 (advance 1 (advance 1 (advance 1 g))) = Inr (c2, g')"
      "length (Pix (Gene c2)) = length (Pix (Gene c1))"
    by blast
  from c1(2) c2(2) have "length (Pix (Gene c2)) \<le> length (Pix target)" by simp
  from calcFitness_total [OF this assms(4)] obtain f where
    f: "calcFitness c2 target = Inr (c2\<lparr>Fitness := f\<rparr>)" "0 \<le> sint f" "sint f < 2 ^ 32"
    by blast
  have "reproduce crossover_raw (mutate_raw rate) pool target g = Inr (c2\<lparr>Fitness := f\<rparr>, g')"
    by (simp only: reproduce_def andThen_def r1(1) r2(1) c1(1) c2(1) f(1) sum.case prod.case)
  with c1(2) c2(2) f(2,3) show ?thesis by simp
qed

lemma reproduce_tri_total:
  assumes "\<forall>t img. Rect (fillTriangle t img) = Rect img
                    \<and> length (Pix (fillTriangle t img)) = length (Pix img)"
    and "pool \<noteq> []"
    and "\<forall>d\<in>set pool. length (Triangles d) = N \<and> Dx (Rect (Gene d)) = W
                        \<and> Dy (Rect (Gene d)) = H"
    and "0 < N" and "0 < W" and "0 < H"
    and "nat (4 * W * H) \<le> length (Pix target)" and "length (Pix target) < 2 ^ 47"
  shows "\<exists>child g'. reproduce (crossover_tri fillTriangle) (mutate_tri fillTriangle rate)
                       pool target g = Inr (child, g')
           \<and> length (Triangles child) = N \<and> Dx (Rect (Gene child)) = W
           \<and> Dy (Rect (Gene child)) = H
           \<and> 0 \<le> sint (Fitness child) \<and> sint (Fitness child) < 2 ^ 32"
proof -
  from Intn_index [OF assms(2)] obtain r1 where
    r1: "Intn (int (length pool)) g = Inr (r1, advance 1 g)" "pool ! nat r1 \<in> set pool"
    by blast
  from Intn_index [OF assms(2)] obtain r2 where
    r2: "Intn (int (length pool)) (advance 1 g) = Inr (r2, advance 1 (advance 1 g))"
      "pool ! nat r2 \<in> set pool"
    by blast
  from r1(2) r2(2) assms(3) have w:
    "length (Triangles (pool ! nat r1)) = N" "length (Triangles (pool ! nat r2)) = N"
    "Dx (Rect (Gene (pool ! nat r1))) = W" "Dy (Rect (Gene (pool ! nat r1))) = H"
    by simp_all
  from w(3,4) assms(5,6) have nn:
    "0 \<le> Dx (Rect (Gene (pool ! nat r1)))" "0 \<le> Dy (Rect (Gene (pool ! nat r1)))"
    by simp_all
  from crossover_tri_total [OF assms(1) w(1,2) assms(4) nn] obtain c1 where
    c1: "crossover_tri fillTriangle (pool ! nat r1) (pool ! nat r2) (advance 1 (advance 1 g))
           = Inr (c1, advance 1 (advance 1 (advance 1 g)))"
      "length (Triangles c1) = N" "Dx (Rect (Gene c1)) = W" "Dy (Rect (Gene c1)) = H"
    unfolding w(3,4) by blast
  from c1(3,4) assms(5,6) have pos: "0 < Dx (Rect (Gene c1))" "0 < Dy (Rect (Gene c1))"
    by simp_all
  from mutate_tri_total [OF assms(1) pos, of rate] obtain c2 g' where
    c2: "mutate_tri fillTriangle rate c1 (advance 1 (advance 1 (advance 1 g))) = Inr (c2, g')"
      "length (Triangles c2) = length (Triangles c1)"
      "Dx (Rect (Gene c2)) = W" "Dy (Rect (Gene c2)) = H"
      "length (Pix (Gene c2)) = nat (4 * W * H)"
    unfolding c1(3,4) by blast
  from c2(5) assms(7) have "length (Pix (Gene c2)) \<le> length (Pix target)" by simp
  from calcFitness_total [OF this assms(8)] obtain f where
    f: "calcFitness c2 target = Inr (c2\<lparr>Fitness := f\<rparr>)" "0 \<le> sint f" "sint f < 2 ^ 32"
    by blast
  have "reproduce (crossover_tri fillTriangle) (mutate_tri fillTriangle rate) pool target g
      = Inr (c2\<lparr>Fitness := f\<rparr>, g')"
    by (simp only: reproduce_def andThen_def r1(1) r2(1) c1(1) c2(1) f(1) sum.case prod.case)
  with c1(2) c2(2,3,4) f(2,3) show ?thesis by simp
qed

text \<open>One genome of the initial population.\<close>

lemma createDNA_raw_total:
  assumes "length (Pix target) < 2 ^ 47"
  shows "\<exists>dna g'. createDNA_raw target g = Inr (dna, g')
           \<and> length (Pix (Gene dna)) = length (Pix target)
           \<and> 0 \<le> sint (Fitness dna) \<and> sint (Fitness dna) < 2 ^ 32"
proof -
  let ?d = "\<lparr>Gene = fst (createRandomImageFrom target g), Fitness = 0\<rparr>"
  have l: "length (Pix (Gene ?d)) = length (Pix target)"
    by (simp add: createRandomImageFrom_def Read_def)
  then have "length (Pix (Gene ?d)) \<le> length (Pix target)" by simp
  from calcFitness_total [OF this assms] obtain f where
    "calcFitness ?d target = Inr (?d\<lparr>Fitness := f\<rparr>)" "0 \<le> sint f" "sint f < 2 ^ 32"
    by blast
  with l show ?thesis by (simp add: createDNA_raw_def)
qed

lemma createDNA_loop_total:
  assumes "0 < w" and "0 < h"
  shows "\<exists>ts g'. createDNA_loop NumTriangles w h i triangles g = Inr (ts, g')
           \<and> length ts = length triangles + (NumTriangles - i)"
  using assms
proof (induction NumTriangles w h i triangles g rule: createDNA_loop.induct)
  case (1 NumTriangles w h i triangles g)
  show ?case
  proof (cases "i < NumTriangles")
    case False
    then show ?thesis by (subst createDNA_loop.simps) simp
  next
    case True
    from createTriangle_total [OF "1.prems", of g] obtain t g1 where
      c: "createTriangle w h g = Inr (t, g1)" by blast
    from "1.IH" [OF True c refl "1.prems"] obtain ts g' where
      "createDNA_loop NumTriangles w h (Suc i) (triangles @ [t]) g1 = Inr (ts, g')"
      "length ts = length (triangles @ [t]) + (NumTriangles - Suc i)"
      by blast
    with True c show ?thesis by (subst createDNA_loop.simps) auto
  qed
qed

lemma createDNA_tri_total:
  assumes "\<forall>t img. Rect (fillTriangle t img) = Rect img
                    \<and> length (Pix (fillTriangle t img)) = length (Pix img)"
    and "0 < Dx (Rect target)" and "0 < Dy (Rect target)"
    and "nat (4 * Dx (Rect target) * Dy (Rect target)) \<le> length (Pix target)"
    and "length (Pix target) < 2 ^ 47"
  shows "\<exists>dna g'. createDNA_tri fillTriangle NumTriangles target g = Inr (dna, g')
           \<and> length (Triangles dna) = NumTriangles
           \<and> Dx (Rect (Gene dna)) = Dx (Rect target)
           \<and> Dy (Rect (Gene dna)) = Dy (Rect target)
           \<and> 0 \<le> sint (Fitness dna) \<and> sint (Fitness dna) < 2 ^ 32"
proof -
  let ?w = "Dx (Rect target)" and ?h = "Dy (Rect target)"
  from createDNA_loop_total [OF assms(2,3), of NumTriangles 0 "[]" g] obtain ts g' where
    l: "createDNA_loop NumTriangles ?w ?h 0 [] g = Inr (ts, g')" "length ts = NumTriangles"
    by auto
  let ?d = "\<lparr>Gene = draw fillTriangle ?w ?h ts, Fitness = 0, Triangles = ts\<rparr>"
  from assms(2,3) have nn: "0 \<le> ?w" "0 \<le> ?h" by simp_all
  note shape = draw_shape [OF assms(1) nn, where triangles = ts]
  from shape(3) assms(4) have "length (Pix (Gene ?d)) \<le> length (Pix target)" by simp
  from calcFitness_total [OF this assms(5)] obtain f where
    f: "calcFitness ?d target = Inr (?d\<lparr>Fitness := f\<rparr>)" "0 \<le> sint f" "sint f < 2 ^ 32"
    by blast
  have "createDNA_tri fillTriangle NumTriangles target g = Inr (?d\<lparr>Fitness := f\<rparr>, g')"
    by (simp only: createDNA_tri_def andThen_def l(1) f(1) sum.case prod.case)
  with l(2) shape(1,2) f(2,3) show ?thesis by simp
qed

text \<open>The next generation and the initial population, in each program.\<close>

lemma naturalSelection_raw_total:
  assumes "pool \<noteq> []"
    and "\<forall>d\<in>set pool. length (Pix (Gene d)) = length (Pix target)"
    and "0 < length (Pix target)" and "length (Pix target) < 2 ^ 47"
  shows "\<exists>next g'. naturalSelection_raw rate pool population target g = Inr (next, g')
           \<and> length next = length population
           \<and> (\<forall>d\<in>set next. 0 \<le> sint (Fitness d)
                  \<and> length (Pix (Gene d)) = length (Pix target))"
proof -
  let ?Q = "\<lambda>d :: DNA. length (Pix (Gene d)) = length (Pix target)
              \<and> 0 \<le> sint (Fitness d) \<and> sint (Fitness d) < 2 ^ 32"
  have "\<exists>child g'. reproduce crossover_raw (mutate_raw rate) pool target g = Inr (child, g')
          \<and> ?Q child" for g
    using reproduce_raw_total [OF assms] by blast
  from fill_slots_total
    [where Q = ?Q and body = "reproduce crossover_raw (mutate_raw rate) pool target"
       and n = "length population" and i = 0 and acc = "[]" and g = g, OF this]
  show ?thesis by (auto simp: naturalSelection_raw_def)
qed

lemma naturalSelection_tri_total:
  assumes "\<forall>t img. Rect (fillTriangle t img) = Rect img
                    \<and> length (Pix (fillTriangle t img)) = length (Pix img)"
    and "pool \<noteq> []"
    and "\<forall>d\<in>set pool. length (Triangles d) = N \<and> Dx (Rect (Gene d)) = W
                        \<and> Dy (Rect (Gene d)) = H"
    and "0 < N" and "0 < W" and "0 < H"
    and "nat (4 * W * H) \<le> length (Pix target)" and "length (Pix target) < 2 ^ 47"
  shows "\<exists>next g'. naturalSelection_tri fillTriangle rate pool population target g
                      = Inr (next, g')
           \<and> length next = length population
           \<and> (\<forall>d\<in>set next. 0 \<le> sint (Fitness d) \<and> length (Triangles d) = N
                  \<and> Dx (Rect (Gene d)) = W \<and> Dy (Rect (Gene d)) = H)"
proof -
  let ?Q = "\<lambda>d :: TDNA. length (Triangles d) = N \<and> Dx (Rect (Gene d)) = W
              \<and> Dy (Rect (Gene d)) = H
              \<and> 0 \<le> sint (Fitness d) \<and> sint (Fitness d) < 2 ^ 32"
  have "\<exists>child g'. reproduce (crossover_tri fillTriangle) (mutate_tri fillTriangle rate)
                      pool target g = Inr (child, g') \<and> ?Q child" for g
    using reproduce_tri_total [OF assms] by blast
  from fill_slots_total
    [where Q = ?Q and body = "reproduce (crossover_tri fillTriangle) (mutate_tri fillTriangle rate) pool target"
       and n = "length population" and i = 0 and acc = "[]" and g = g, OF this]
  show ?thesis by (auto simp: naturalSelection_tri_def)
qed

lemma createPopulation_raw_total:
  assumes "length (Pix target) < 2 ^ 47"
  shows "\<exists>population g'. createPopulation_raw PopSize target g = Inr (population, g')
           \<and> length population = PopSize
           \<and> (\<forall>d\<in>set population. 0 \<le> sint (Fitness d)
                  \<and> length (Pix (Gene d)) = length (Pix target))"
proof -
  let ?Q = "\<lambda>d :: DNA. length (Pix (Gene d)) = length (Pix target)
              \<and> 0 \<le> sint (Fitness d) \<and> sint (Fitness d) < 2 ^ 32"
  have "\<exists>dna g'. createDNA_raw target g = Inr (dna, g') \<and> ?Q dna" for g
    using createDNA_raw_total [OF assms] by blast
  from fill_slots_total
    [where Q = ?Q and body = "createDNA_raw target"
       and n = "PopSize" and i = 0 and acc = "[]" and g = g, OF this]
  show ?thesis by (auto simp: createPopulation_raw_def)
qed

lemma createPopulation_tri_total:
  assumes "\<forall>t img. Rect (fillTriangle t img) = Rect img
                    \<and> length (Pix (fillTriangle t img)) = length (Pix img)"
    and "0 < Dx (Rect target)" and "0 < Dy (Rect target)"
    and "nat (4 * Dx (Rect target) * Dy (Rect target)) \<le> length (Pix target)"
    and "length (Pix target) < 2 ^ 47"
  shows "\<exists>population g'. createPopulation_tri fillTriangle NumTriangles PopSize target g
                             = Inr (population, g')
           \<and> length population = PopSize
           \<and> (\<forall>d\<in>set population. 0 \<le> sint (Fitness d)
                  \<and> length (Triangles d) = NumTriangles
                  \<and> Dx (Rect (Gene d)) = Dx (Rect target)
                  \<and> Dy (Rect (Gene d)) = Dy (Rect target))"
proof -
  let ?Q = "\<lambda>d :: TDNA. length (Triangles d) = NumTriangles
              \<and> Dx (Rect (Gene d)) = Dx (Rect target) \<and> Dy (Rect (Gene d)) = Dy (Rect target)
              \<and> 0 \<le> sint (Fitness d) \<and> sint (Fitness d) < 2 ^ 32"
  have "\<exists>dna g'. createDNA_tri fillTriangle NumTriangles target g = Inr (dna, g') \<and> ?Q dna"
    for g
    using createDNA_tri_total [OF assms] by blast
  from fill_slots_total
    [where Q = ?Q and body = "createDNA_tri fillTriangle NumTriangles target"
       and n = "PopSize" and i = 0 and acc = "[]" and g = g, OF this]
  show ?thesis by (auto simp: createPopulation_tri_def)
qed

text \<open>
  C9. Let the target be an image of positive width and height whose buffer has four bytes
  for each pixel (and fewer than \<open>2^47\<close> bytes, so that the sum of \<^verbatim>\<open>diff\<close> cannot wrap),
  and let the genomes of a non-empty pool have the target's dimensions: in the raw-pixel
  program a buffer of the target's length, in \<^verbatim>\<open>main.go\<close> an image of the target's width
  and height and the same positive number of triangles. Then, for every population and
  every state of the random source, \<^verbatim>\<open>naturalSelection\<close> returns a population of the
  length of its input in which every genome has a non-negative fitness (and again the
  target's dimensions, so that the next generation satisfies the same conditions), and
  \<^verbatim>\<open>createPopulation\<close> returns \<^verbatim>\<open>PopSize\<close> such genomes.
\<close>

theorem generation_keeps_size:
  assumes "0 < Dx (Rect target)" and "0 < Dy (Rect target)"
    and "length (Pix target) = nat (4 * Dx (Rect target) * Dy (Rect target))"
    and "length (Pix target) < 2 ^ 47"
    and "\<forall>t img. Rect (fillTriangle t img) = Rect img
                    \<and> length (Pix (fillTriangle t img)) = length (Pix img)"
    and "pool \<noteq> []"
    and "\<forall>d\<in>set pool. length (Pix (Gene d)) = length (Pix target)"
    and "tpool \<noteq> []"
    and "\<forall>d\<in>set tpool. length (Triangles d) = N \<and> Dx (Rect (Gene d)) = Dx (Rect target)
                         \<and> Dy (Rect (Gene d)) = Dy (Rect target)"
    and "0 < N"
  shows "(\<exists>next g'. naturalSelection_raw rate pool population target g = Inr (next, g')
            \<and> length next = length population
            \<and> (\<forall>d\<in>set next. 0 \<le> sint (Fitness d)
                   \<and> length (Pix (Gene d)) = length (Pix target)))
       \<and> (\<exists>next g'. naturalSelection_tri fillTriangle rate tpool tpopulation target g
                        = Inr (next, g')
            \<and> length next = length tpopulation
            \<and> (\<forall>d\<in>set next. 0 \<le> sint (Fitness d) \<and> length (Triangles d) = N
                   \<and> Dx (Rect (Gene d)) = Dx (Rect target)
                   \<and> Dy (Rect (Gene d)) = Dy (Rect target)))
       \<and> (\<exists>created g'. createPopulation_raw PopSize target g = Inr (created, g')
            \<and> length created = PopSize
            \<and> (\<forall>d\<in>set created. 0 \<le> sint (Fitness d)
                   \<and> length (Pix (Gene d)) = length (Pix target)))
       \<and> (\<exists>created g'. createPopulation_tri fillTriangle NumTriangles PopSize target g
                           = Inr (created, g')
            \<and> length created = PopSize
            \<and> (\<forall>d\<in>set created. 0 \<le> sint (Fitness d)
                   \<and> length (Triangles d) = NumTriangles
                   \<and> Dx (Rect (Gene d)) = Dx (Rect target)
                   \<and> Dy (Rect (Gene d)) = Dy (Rect target)))"
proof -
  from assms(1,2) have "0 < 4 * Dx (Rect target) * Dy (Rect target)" by simp
  with assms(3) have pos: "0 < length (Pix target)" by simp
  from assms(3) have fits: "nat (4 * Dx (Rect target) * Dy (Rect target)) \<le> length (Pix target)"
    by simp
  show ?thesis
    using naturalSelection_raw_total [OF assms(6,7) pos assms(4)]
      naturalSelection_tri_total [OF assms(5,8,9,10) assms(1,2) fits assms(4)]
      createPopulation_raw_total [OF assms(4)]
      createPopulation_tri_total [OF assms(5) assms(1,2) fits assms(4)]
    by blast
qed


theorem generation_keeps_size_witness:
  "0 < Dx (Rect (NewRGBA (image_Rect 0 0 2 2))) \<and> 0 < Dy (Rect (NewRGBA (image_Rect 0 0 2 2)))
   \<and> length (Pix (NewRGBA (image_Rect 0 0 2 2))) = nat (4 * Dx (Rect (NewRGBA (image_Rect 0 0 2 2))) * Dy (Rect (NewRGBA (image_Rect 0 0 2 2))))
   \<and> length (Pix (NewRGBA (image_Rect 0 0 2 2))) < 2 ^ 47
   \<and> (\<forall>t img. Rect (flood t img) = Rect img \<and> length (Pix (flood t img)) = length (Pix img))
   \<and> [\<lparr>Gene = NewRGBA (image_Rect 0 0 2 2), Fitness = 3\<rparr>] \<noteq> []
   \<and> list_all (\<lambda>d. length (Pix (Gene d)) = length (Pix (NewRGBA (image_Rect 0 0 2 2)))) [\<lparr>Gene = NewRGBA (image_Rect 0 0 2 2), Fitness = 3\<rparr>]
   \<and> [\<lparr>Gene = NewRGBA (image_Rect 0 0 2 2), Fitness = 3, Triangles = [sample_triangle 1, sample_triangle 2]\<rparr>] \<noteq> []
   \<and> list_all (\<lambda>d. length (Triangles d) = 2 \<and> Dx (Rect (Gene d)) = Dx (Rect (NewRGBA (image_Rect 0 0 2 2)))
                      \<and> Dy (Rect (Gene d)) = Dy (Rect (NewRGBA (image_Rect 0 0 2 2))))
        [\<lparr>Gene = NewRGBA (image_Rect 0 0 2 2), Fitness = 3, Triangles = [sample_triangle 1, sample_triangle 2]\<rparr>]
   \<and> (0 :: nat) < 2
   \<and> (\<exists>next g'. naturalSelection_raw (21 / 1000) [\<lparr>Gene = NewRGBA (image_Rect 0 0 2 2), Fitness = 3\<rparr>] (replicate 5 (\<lparr>Gene = NewRGBA (image_Rect 0 0 2 2), Fitness = 3\<rparr>)) (NewRGBA (image_Rect 0 0 2 2)) (\<lambda>i. i)
                    = Inr (next, g')
          \<and> length next = 5 \<and> (\<forall>d\<in>set next. 0 \<le> sint (Fitness d)))
   \<and> (\<exists>next g'. naturalSelection_tri flood (21 / 1000) [\<lparr>Gene = NewRGBA (image_Rect 0 0 2 2), Fitness = 3, Triangles = [sample_triangle 1, sample_triangle 2]\<rparr>] (replicate 5 (\<lparr>Gene = NewRGBA (image_Rect 0 0 2 2), Fitness = 3, Triangles = [sample_triangle 1, sample_triangle 2]\<rparr>)) (NewRGBA (image_Rect 0 0 2 2))
                      (\<lambda>i. i)
                    = Inr (next, g')
          \<and> length next = 5 \<and> (\<forall>d\<in>set next. 0 \<le> sint (Fitness d)))
   \<and> (\<exists>created g'. createPopulation_raw 5 (NewRGBA (image_Rect 0 0 2 2)) (\<lambda>i. i) = Inr (created, g')
          \<and> length created = 5 \<and> (\<forall>d\<in>set created. 0 \<le> sint (Fitness d)))
   \<and> (\<exists>created g'. createPopulation_tri flood 2 5 (NewRGBA (image_Rect 0 0 2 2)) (\<lambda>i. i) = Inr (created, g')
          \<and> length created = 5 \<and> (\<forall>d\<in>set created. 0 \<le> sint (Fitness d)))"
proof -
  let ?target = "NewRGBA (image_Rect 0 0 2 2)"
  have d: "Dx (image_Rect 0 0 2 2) = 2" "Dy (image_Rect 0 0 2 2) = 2"
    by (simp_all add: Dx_def Dy_def image_Rect_def)
  have h1: "0 < Dx (Rect ?target)" and h2: "0 < Dy (Rect ?target)"
    by (simp_all add: NewRGBA_def d)
  have h3: "length (Pix ?target) = nat (4 * Dx (Rect ?target) * Dy (Rect ?target))"
    by (simp add: NewRGBA_def d)
  have h4: "length (Pix ?target) < 2 ^ 47" by (simp add: NewRGBA_def d)
  have h5: "\<forall>t img. Rect (flood t img) = Rect img
      \<and> length (Pix (flood t img)) = length (Pix img)"
    by simp
  have h6: "[\<lparr>Gene = NewRGBA (image_Rect 0 0 2 2), Fitness = 3\<rparr>] \<noteq> []" by simp
  have h7: "\<forall>d\<in>set [\<lparr>Gene = NewRGBA (image_Rect 0 0 2 2), Fitness = 3\<rparr>]. length (Pix (Gene d)) = length (Pix ?target)" by simp
  have h8: "[\<lparr>Gene = NewRGBA (image_Rect 0 0 2 2), Fitness = 3, Triangles = [sample_triangle 1, sample_triangle 2]\<rparr>] \<noteq> []" by simp
  have h9: "\<forall>d\<in>set [\<lparr>Gene = NewRGBA (image_Rect 0 0 2 2), Fitness = 3, Triangles = [sample_triangle 1, sample_triangle 2]\<rparr>].
      length (Triangles d) = 2 \<and> Dx (Rect (Gene d)) = Dx (Rect ?target)
      \<and> Dy (Rect (Gene d)) = Dy (Rect ?target)"
    by simp
  have h10: "(0 :: nat) < 2" by simp
  note c = generation_keeps_size
    [OF h1 h2 h3 h4 h5 h6 h7 h8 h9 h10,
     where rate = "21 / 1000" and g = "\<lambda>i. i" and PopSize = 5 and NumTriangles = 2
       and population = "replicate 5 (\<lparr>Gene = NewRGBA (image_Rect 0 0 2 2), Fitness = 3\<rparr>)" and tpopulation = "replicate 5 (\<lparr>Gene = NewRGBA (image_Rect 0 0 2 2), Fitness = 3, Triangles = [sample_triangle 1, sample_triangle 2]\<rparr>)"]
  from c have c1: "\<exists>next g'. naturalSelection_raw (21 / 1000) [\<lparr>Gene = NewRGBA (image_Rect 0 0 2 2), Fitness = 3\<rparr>] (replicate 5 (\<lparr>Gene = NewRGBA (image_Rect 0 0 2 2), Fitness = 3\<rparr>))
        ?target (\<lambda>i. i) = Inr (next, g')
      \<and> length next = 5 \<and> (\<forall>d\<in>set next. 0 \<le> sint (Fitness d))"
    by (simp only: length_replicate) blast
  from c have c2: "\<exists>next g'. naturalSelection_tri flood (21 / 1000) [\<lparr>Gene = NewRGBA (image_Rect 0 0 2 2), Fitness = 3, Triangles = [sample_triangle 1, sample_triangle 2]\<rparr>] (replicate 5 (\<lparr>Gene = NewRGBA (image_Rect 0 0 2 2), Fitness = 3, Triangles = [sample_triangle 1, sample_triangle 2]\<rparr>))
        ?target (\<lambda>i. i) = Inr (next, g')
      \<and> length next = 5 \<and> (\<forall>d\<in>set next. 0 \<le> sint (Fitness d))"
    by (simp only: length_replicate) blast
  from c have c3: "\<exists>created g'. createPopulation_raw 5 ?target (\<lambda>i. i) = Inr (created, g')
      \<and> length created = 5 \<and> (\<forall>d\<in>set created. 0 \<le> sint (Fitness d))"
    by blast
  from c have c4: "\<exists>created g'. createPopulation_tri flood 2 5 ?target (\<lambda>i. i)
        = Inr (created, g')
      \<and> length created = 5 \<and> (\<forall>d\<in>set created. 0 \<le> sint (Fitness d))"
    by blast
  from h7 have l7: "list_all (\<lambda>d. length (Pix (Gene d)) = length (Pix ?target)) [\<lparr>Gene = NewRGBA (image_Rect 0 0 2 2), Fitness = 3\<rparr>]"
    by simp
  from h9 have l9: "list_all (\<lambda>d. length (Triangles d) = 2
        \<and> Dx (Rect (Gene d)) = Dx (Rect ?target) \<and> Dy (Rect (Gene d)) = Dy (Rect ?target))
      [\<lparr>Gene = NewRGBA (image_Rect 0 0 2 2), Fitness = 3, Triangles = [sample_triangle 1, sample_triangle 2]\<rparr>]"
    by simp
  from h1 h2 h3 h4 h5 h6 l7 h8 l9 h10 c1 c2 c3 c4 show ?thesis
    by (intro conjI)
qed

section \<open>A flat fitness landscape\<close>

text \<open>
  When the genomes at ranks 0 and \<^verbatim>\<open>PoolSize\<close> have the same fitness, all the genomes
  between them have it too. \<^verbatim>\<open>createPool\<close> of \<^verbatim>\<open>main.go\<close> then returns the whole sorted
  population; \<^verbatim>\<open>createPool\<close> of the raw-pixel program has no such test, every weight is 0
  and the pool is empty, on which \<^verbatim>\<open>naturalSelection\<close> panics in \<^verbatim>\<open>rand.Intn(0)\<close>.
\<close>

lemma flat_top:
  assumes "PoolSize < length population"
    and "Fitness (sortSliceStable population ! PoolSize) = Fitness (sortSliceStable population ! 0)"
    and "j \<le> PoolSize"
  shows "Fitness (sortSliceStable population ! j) = Fitness (sortSliceStable population ! PoolSize)"
proof -
  from assms(1,3) have "j < length population" by simp
  from sortSliceStable_nth_mono [OF _ this, of 0] sortSliceStable_nth_mono [OF assms(3,1)] assms(2)
  have "sint (Fitness (sortSliceStable population ! j))
      = sint (Fitness (sortSliceStable population ! PoolSize))"
    by simp
  then show ?thesis by (simp add: sint_eq_iff)
qed

lemma createPool_raw_flat:
  assumes "PoolSize < length population"
    and "Fitness (sortSliceStable population ! PoolSize) = Fitness (sortSliceStable population ! 0)"
  shows "snd (createPool_raw PoolSize population) = Inr []"
proof -
  let ?s = "sortSliceStable population"
  have "Fitness (take (PoolSize + 1) ?s ! PoolSize) - Fitness (take (PoolSize + 1) ?s ! j) = 0"
    if "j < PoolSize" for j
    using that flat_top [OF assms, of j] by simp
  then have "concat (map (\<lambda>j. replicate
        (nat (sint ((Fitness (take (PoolSize + 1) ?s ! PoolSize)
                      - Fitness (take (PoolSize + 1) ?s ! j)) * 10)))
        (take (PoolSize + 1) ?s ! j)) [0..<PoolSize]) = []"
    by simp
  with assms(1) show ?thesis
    by (simp add: createPool_raw_def Let_def length_sortSliceStable createPool_loop_closed)
qed

lemma createPool_tri_flat:
  assumes "PoolSize < length population"
    and "Fitness (sortSliceStable population ! PoolSize) = Fitness (sortSliceStable population ! 0)"
  shows "snd (createPool_tri PoolSize population) = Inr (sortSliceStable population)"
  using assms by (simp add: createPool_tri_def Let_def length_sortSliceStable)

lemma naturalSelection_raw_empty_pool:
  "population \<noteq> [] \<Longrightarrow>
     naturalSelection_raw rate [] population target g = Inl InvalidIntnArgument"
  by (simp add: naturalSelection_raw_def fill_slots_panics reproduce_def andThen_def Intn_panics)

lemma flat_landscape_tri:
  assumes "\<forall>t img. Rect (fillTriangle t img) = Rect img
                    \<and> length (Pix (fillTriangle t img)) = length (Pix img)"
    and "PoolSize < length population"
    and "Fitness (sortSliceStable population ! PoolSize) = Fitness (sortSliceStable population ! 0)"
    and "\<forall>d\<in>set population. length (Triangles d) = N \<and> Dx (Rect (Gene d)) = W
                              \<and> Dy (Rect (Gene d)) = H"
    and "0 < N" and "0 < W" and "0 < H"
    and "nat (4 * W * H) \<le> length (Pix target)" and "length (Pix target) < 2 ^ 47"
  shows "snd (createPool_tri PoolSize population) = Inr (sortSliceStable population)
       \<and> (\<exists>next g'. naturalSelection_tri fillTriangle rate (sortSliceStable population)
                        (sortSliceStable population) target g = Inr (next, g')
              \<and> length next = length population)"
proof -
  from assms(2) have "sortSliceStable population \<noteq> []"
    by (auto simp flip: length_0_conv simp: length_sortSliceStable)
  moreover from assms(4) have "\<forall>d\<in>set (sortSliceStable population).
      length (Triangles d) = N \<and> Dx (Rect (Gene d)) = W \<and> Dy (Rect (Gene d)) = H"
    by (simp add: set_sortSliceStable)
  ultimately have "\<exists>next g'. naturalSelection_tri fillTriangle rate (sortSliceStable population)
        (sortSliceStable population) target g = Inr (next, g')
      \<and> length next = length (sortSliceStable population)"
    using naturalSelection_tri_total [OF assms(1) _ _ assms(5,6,7,8,9)] by blast
  with createPool_tri_flat [OF assms(2,3)] show ?thesis
    by (simp add: length_sortSliceStable)
qed

text \<open>
  C2. The claim holds in \<^verbatim>\<open>main.go\<close> (\<open>flat_landscape_tri\<close>) and fails in the raw-pixel
  program: on three genomes of fitness 5 with \<^verbatim>\<open>PoolSize\<close> 2, \<^verbatim>\<open>createPool\<close> returns the
  empty pool, not the population, and \<^verbatim>\<open>naturalSelection\<close> panics on it.
\<close>

theorem flat_landscape_raw_panics:
  "snd (createPool_raw 2
     [\<lparr>Gene = \<lparr>Pix = [1, 0, 0, 255], Stride = 4, Rect = image_Rect 0 0 1 1\<rparr>, Fitness = 5\<rparr>,
      \<lparr>Gene = \<lparr>Pix = [2, 0, 0, 255], Stride = 4, Rect = image_Rect 0 0 1 1\<rparr>, Fitness = 5\<rparr>,
      \<lparr>Gene = \<lparr>Pix = [3, 0, 0, 255], Stride = 4, Rect = image_Rect 0 0 1 1\<rparr>, Fitness = 5\<rparr>]) = Inr []
   \<and> naturalSelection_raw (4 / 10000) []
     [\<lparr>Gene = \<lparr>Pix = [1, 0, 0, 255], Stride = 4, Rect = image_Rect 0 0 1 1\<rparr>, Fitness = 5\<rparr>,
      \<lparr>Gene = \<lparr>Pix = [2, 0, 0, 255], Stride = 4, Rect = image_Rect 0 0 1 1\<rparr>, Fitness = 5\<rparr>,
      \<lparr>Gene = \<lparr>Pix = [3, 0, 0, 255], Stride = 4, Rect = image_Rect 0 0 1 1\<rparr>, Fitness = 5\<rparr>]
     \<lparr>Pix = [0, 0, 0, 255], Stride = 4, Rect = image_Rect 0 0 1 1\<rparr> (\<lambda>i. i) = Inl InvalidIntnArgument"
  by (simp add: createPool_raw_def sortSliceStable_def createPool_loop.simps
        createPool_inner.simps word_sless_alt naturalSelection_raw_def fill_slots.simps
        reproduce_def andThen_def Intn_def)

end
